theory Spec2Isabelle
  imports Main "HOL-Library.AList"
begin

section \<open>Session tracker: \<^verbatim>\<open>MainWindow._on_result\<close>\<close>

text \<open>
  One entry of the poll result, the dict
  \<^verbatim>\<open>{"live": bool, "title": str, "started_at": str, "id": str}\<close> that
  \<^verbatim>\<open>TwitchChecker.check_channels\<close> builds for every login. The key \<^verbatim>\<open>id\<close> is the
  field \<open>id_str\<close> here.
\<close>

record info =
  live :: bool
  title :: string
  started_at :: string
  id_str :: string

text \<open>
  One value of \<^verbatim>\<open>self.live_sessions\<close>:
  \<^verbatim>\<open>{"session_id": str, "started_at": str, "last_seen": int, "offline_since": Optional[int]}\<close>.
\<close>

record session =
  session_id :: string
  session_started_at :: string
  last_seen :: int
  offline_since :: "int option"

text \<open>
  What the tracker does besides updating \<^verbatim>\<open>live_sessions\<close>:
  \<^verbatim>\<open>_open_stream_once(login)\<close> (a log line and \<^verbatim>\<open>webbrowser.open\<close>) and the two
  log lines of the reconnect and the offline branch.
\<close>

datatype event = OpenStream string | LogReconnect string | LogOffline string

definition RECONNECT_GRACE_SEC :: int where
  "RECONNECT_GRACE_SEC = 300"

text \<open>
  Python's truth value of an \<^verbatim>\<open>Optional[int]\<close>: \<^verbatim>\<open>None\<close> and \<^verbatim>\<open>0\<close> are false.
\<close>

definition truthy_time :: "int option \<Rightarrow> bool" where
  "truthy_time t = (case t of None \<Rightarrow> False | Some v \<Rightarrow> v \<noteq> 0)"

text \<open>
  The test of the clean-up loop:
  \<^verbatim>\<open>offline_since and (now_epoch - offline_since > self.RECONNECT_GRACE_SEC)\<close>.
\<close>

definition expired :: "int \<Rightarrow> session \<Rightarrow> bool" where
  "expired now_epoch sess =
     (case offline_since sess of
        None \<Rightarrow> False
      | Some t \<Rightarrow> t \<noteq> 0 \<and> now_epoch - t > RECONNECT_GRACE_SEC)"

text \<open>
  The clean-up loop collects the logins to delete and then pops them; the dict that is
  left holds exactly the records that fail the test.
\<close>

definition sweep :: "int \<Rightarrow> (string \<rightharpoonup> session) \<Rightarrow> (string \<rightharpoonup> session)" where
  "sweep now_epoch sessions =
     (\<lambda>login. case sessions login of
        None \<Rightarrow> None
      | Some sess \<Rightarrow> if expired now_epoch sess then None else Some sess)"

text \<open>
  \<^verbatim>\<open>session_id = info.get("id") or info.get("started_at") or ""\<close>.
\<close>

definition session_key :: "info \<Rightarrow> string" where
  "session_key i =
     (if id_str i \<noteq> [] then id_str i
      else if started_at i \<noteq> [] then started_at i
      else [])"

text \<open>
  The test of the reconnect branch:
  \<^verbatim>\<open>offline_since and (now_epoch - offline_since <= self.RECONNECT_GRACE_SEC)\<close>.
\<close>

definition within_grace :: "int \<Rightarrow> session \<Rightarrow> bool" where
  "within_grace now_epoch prev =
     (case offline_since prev of
        None \<Rightarrow> False
      | Some t \<Rightarrow> t \<noteq> 0 \<and> now_epoch - t \<le> RECONNECT_GRACE_SEC)"

text \<open>
  The body of the second loop over \<^verbatim>\<open>result.items()\<close>, for one login. The state is
  the dict \<^verbatim>\<open>live_sessions\<close> and the effects fired so far.
\<close>

fun track_one ::
  "int \<Rightarrow> (string \<rightharpoonup> session) \<times> event list \<Rightarrow> string \<times> info
     \<Rightarrow> (string \<rightharpoonup> session) \<times> event list" where
  "track_one now_epoch (sessions, evs) (login, i) =
     (if live i then
        (case sessions login of
           None \<Rightarrow>
             (sessions(login \<mapsto>
                \<lparr>session_id = session_key i, session_started_at = started_at i,
                 last_seen = now_epoch, offline_since = None\<rparr>),
              evs @ [OpenStream login])
         | Some prev \<Rightarrow>
             if session_key i = session_id prev then
               (sessions(login \<mapsto> prev\<lparr>last_seen := now_epoch, offline_since := None\<rparr>),
                evs)
             else if within_grace now_epoch prev then
               (sessions(login \<mapsto>
                  prev\<lparr>session_id := session_key i, session_started_at := started_at i,
                       last_seen := now_epoch, offline_since := None\<rparr>),
                evs @ [LogReconnect login])
             else
               (sessions(login \<mapsto>
                  prev\<lparr>session_id := session_key i, session_started_at := started_at i,
                       last_seen := now_epoch, offline_since := None\<rparr>),
                evs @ [OpenStream login]))
      else
        (case sessions login of
           None \<Rightarrow> (sessions, evs)
         | Some prev \<Rightarrow>
             if \<not> truthy_time (offline_since prev) then
               (sessions(login \<mapsto> prev\<lparr>offline_since := Some now_epoch\<rparr>),
                evs @ [LogOffline login])
             else (sessions, evs)))"

text \<open>
  \<^verbatim>\<open>_on_result(result)\<close> at the time \<^verbatim>\<open>now_epoch = int(time.time())\<close>: the expiry
  sweep, then the loop over the entries of \<^verbatim>\<open>result\<close> in the dict's order. The result
  is the new \<^verbatim>\<open>live_sessions\<close> and the effects, in the order they were fired. The
  status table the method redraws first is display only and is left out.
  \<^verbatim>\<open>result\<close> is a dict, so a login is the key of at most one entry.
\<close>

definition on_result ::
  "int \<Rightarrow> (string \<times> info) list \<Rightarrow> (string \<rightharpoonup> session)
     \<Rightarrow> (string \<rightharpoonup> session) \<times> event list" where
  "on_result now_epoch result sessions =
     foldl (track_one now_epoch) (sweep now_epoch sessions, []) result"

section \<open>Python values, dicts and strings\<close>

text \<open>
  The values a JSON document holds, which are the values of the configuration dict and of
  the token endpoint's answer. JSON numbers are integers here.
\<close>

datatype jval =
  JNull | JBool bool | JInt int | JStr string | JArr "jval list" | JObj "(string \<times> jval) list"

text \<open>Python's truth value.\<close>

fun truthy :: "jval \<Rightarrow> bool" where
  "truthy JNull = False"
| "truthy (JBool b) = b"
| "truthy (JInt n) = (n \<noteq> 0)"
| "truthy (JStr s) = (s \<noteq> [])"
| "truthy (JArr xs) = (xs \<noteq> [])"
| "truthy (JObj kvs) = (kvs \<noteq> [])"


text \<open>
  A dict with string keys: the items in insertion order, every key once.
  \<^verbatim>\<open>d.get(k, dflt)\<close> is \<open>dict_get\<close>; \<^verbatim>\<open>d[k] = v\<close> is \<^const>\<open>AList.update\<close>, which
  replaces the value of a key in place and appends a new key at the end, as Python does.
\<close>

type_synonym dict = "(string \<times> jval) list"

definition dict_get :: "dict \<Rightarrow> string \<Rightarrow> jval \<Rightarrow> jval" where
  "dict_get d k dflt = (case map_of d k of None \<Rightarrow> dflt | Some v \<Rightarrow> v)"

text \<open>
  The builtin \<^verbatim>\<open>int\<close> on a string is a parameter \<open>int_of_str\<close> of the model
  (\<open>None\<close> when it raises \<^verbatim>\<open>ValueError\<close>). \<^verbatim>\<open>int(v)\<close> on a JSON value, \<open>None\<close>
  when it raises \<^verbatim>\<open>ValueError\<close> or \<^verbatim>\<open>TypeError\<close>:
\<close>

fun int_of_jval :: "(string \<Rightarrow> int option) \<Rightarrow> jval \<Rightarrow> int option" where
  "int_of_jval int_of_str (JInt n) = Some n"
| "int_of_jval int_of_str (JBool b) = Some (if b then 1 else 0)"
| "int_of_jval int_of_str (JStr s) = int_of_str s"
| "int_of_jval int_of_str JNull = None"
| "int_of_jval int_of_str (JArr xs) = None"
| "int_of_jval int_of_str (JObj kvs) = None"

text \<open>
  A character is a code point below 256 and a string is a list of them: ASCII, the
  alphabet of Twitch logins and of the numeric fields, and the rest of Latin-1.
  \<open>is_space\<close> holds of the characters of that range that \<^verbatim>\<open>str.strip()\<close> removes
  (those for which \<^verbatim>\<open>str.isspace\<close> holds): the ASCII white space, the separators
  0x1C to 0x1F, NEXT LINE 0x85 and NO-BREAK SPACE 0xA0. \<open>lower_char\<close> is
  \<^verbatim>\<open>str.lower()\<close> on one character of that range: the capitals A to Z and 0xC0 to
  0xDE, the multiplication sign 0xD7 excepted, move up by 0x20.
\<close>

definition is_space :: "char \<Rightarrow> bool" where
  "is_space c =
     (c \<in> set [CHR 0x09, CHR 0x0A, CHR 0x0B, CHR 0x0C, CHR 0x0D,
                CHR 0x1C, CHR 0x1D, CHR 0x1E, CHR 0x1F, CHR 0x20, CHR 0x85, CHR 0xA0])"

definition strip :: "string \<Rightarrow> string" where
  "strip s = rev (dropWhile is_space (rev (dropWhile is_space s)))"

definition lower_char :: "char \<Rightarrow> char" where
  "lower_char c =
     (case map_of
             (zip (''ABCDEFGHIJKLMNOPQRSTUVWXYZ'' @
                   [CHR 0xC0, CHR 0xC1, CHR 0xC2, CHR 0xC3, CHR 0xC4, CHR 0xC5, CHR 0xC6,
                    CHR 0xC7, CHR 0xC8, CHR 0xC9, CHR 0xCA, CHR 0xCB, CHR 0xCC, CHR 0xCD,
                    CHR 0xCE, CHR 0xCF, CHR 0xD0, CHR 0xD1, CHR 0xD2, CHR 0xD3, CHR 0xD4,
                    CHR 0xD5, CHR 0xD6, CHR 0xD8, CHR 0xD9, CHR 0xDA, CHR 0xDB, CHR 0xDC,
                    CHR 0xDD, CHR 0xDE])
                  (''abcdefghijklmnopqrstuvwxyz'' @
                   [CHR 0xE0, CHR 0xE1, CHR 0xE2, CHR 0xE3, CHR 0xE4, CHR 0xE5, CHR 0xE6,
                    CHR 0xE7, CHR 0xE8, CHR 0xE9, CHR 0xEA, CHR 0xEB, CHR 0xEC, CHR 0xED,
                    CHR 0xEE, CHR 0xEF, CHR 0xF0, CHR 0xF1, CHR 0xF2, CHR 0xF3, CHR 0xF4,
                    CHR 0xF5, CHR 0xF6, CHR 0xF8, CHR 0xF9, CHR 0xFA, CHR 0xFB, CHR 0xFC,
                    CHR 0xFD, CHR 0xFE])) c of
        None \<Rightarrow> c
      | Some d \<Rightarrow> d)"

definition lower :: "string \<Rightarrow> string" where
  "lower s = map lower_char s"

text \<open>
  A reader of unsigned decimal numerals with surrounding whitespace, the strings the two
  interval fields accept. It stands for \<^verbatim>\<open>int\<close> in the examples.
\<close>

fun read_digits :: "string \<Rightarrow> int \<Rightarrow> int option" where
  "read_digits [] acc = Some acc"
| "read_digits (c # cs) acc =
     (case map_of (zip ''0123456789'' [0, 1, 2, 3, 4, 5, 6, 7, 8, 9]) c of
        None \<Rightarrow> None
      | Some d \<Rightarrow> read_digits cs (10 * acc + d))"

definition decimal :: "string \<Rightarrow> int option" where
  "decimal s = (if strip s = [] then None else read_digits (strip s) 0)"

section \<open>Configuration file: \<^verbatim>\<open>save_config\<close>\<close>

text \<open>
  \<^verbatim>\<open>save_config(cfg)\<close> works on a copy of its argument, so the model keeps the dicts
  in a heap: a list of dicts, an object's address is its index. \<^verbatim>\<open>dict(cfg)\<close>
  allocates a new dict with the items of \<open>cfg\<close>; the assignment to
  \<^verbatim>\<open>cfg_to_write["client_secret"]\<close> updates the object at that new address. The file's
  content is the dict handed to \<^verbatim>\<open>json.dumps\<close> (the text is a function of its items
  and their order), or \<open>None\<close> when the file is missing or holds no JSON document.
  How the write ends is a parameter: \<open>Written\<close>; \<open>NotOpened\<close>, when an exception
  comes before the file is opened for writing, so that the file keeps its content; or
  \<open>Cut\<close>, when \<^verbatim>\<open>write_text\<close> raises after it has opened and so truncated the
  file, which then holds no complete document. The \<^verbatim>\<open>except\<close> clause swallows the
  exception in both cases.
\<close>

type_synonym heap = "dict list"

datatype written = Written | NotOpened | Cut

definition save_config ::
  "written \<Rightarrow> heap \<Rightarrow> nat \<Rightarrow> dict option \<Rightarrow> heap \<times> dict option" where
  "save_config outcome h cfg file =
     (let cfg_to_write = length h;
          h1 = h @ [h ! cfg];
          h2 = (if \<not> truthy (dict_get (h1 ! cfg_to_write) ''save_client_secret'' (JBool False))
                then h1[cfg_to_write :=
                          AList.update ''client_secret'' (JStr []) (h1 ! cfg_to_write)]
                else h1)
      in (h2, case outcome of
                Written \<Rightarrow> Some (h2 ! cfg_to_write)
              | NotOpened \<Rightarrow> file
              | Cut \<Rightarrow> None))"

section \<open>The main window's state\<close>

text \<open>The lines \<^verbatim>\<open>_log\<close> appends, without their time stamps.\<close>

datatype logmsg =
  LogNeedClientId
| LogNeedSecret
| LogTokenHttp int string
| LogTokenMalformed
| LogTokenOk
| LogNetworkError string
| LogUnknownError string
| LogNoToken
| LogStarted int
| LogEmptyChannels

text \<open>
  The part of \<^verbatim>\<open>MainWindow\<close> the modelled methods read or write. A line edit is the
  string it shows, a check box its state; \<open>list_channels\<close> holds the logins of the
  channel rows; \<open>timer\<close> is the interval in milliseconds while the timer runs;
  \<open>sig_check\<close> collects the emissions of \<^verbatim>\<open>sigCheck\<close>; \<open>config_file\<close> is the
  content of the configuration file and \<open>disk\<close> says how writing it ends. The text of
  the expiry label is display only and is left out; \<open>localtime_ok\<close> holds of the
  epochs that \<^verbatim>\<open>time.localtime\<close> accepts on this platform, the others make
  \<^verbatim>\<open>_fmt_expiry_label\<close> raise.
\<close>

record app =
  cfg :: dict
  le_client_id :: string
  le_client_secret :: string
  le_token :: string
  le_minutes :: string
  le_seconds :: string
  cb_save_secret :: bool
  cb_autostart :: bool
  list_channels :: "string list"
  live_sessions :: "string \<rightharpoonup> session"
  timer :: "int option"
  btn_start_enabled :: bool
  btn_stop_enabled :: bool
  log_lines :: "logmsg list"
  sig_check :: "string list list"
  config_file :: "dict option"
  disk :: written
  localtime_ok :: "int \<Rightarrow> bool"

definition add_log :: "logmsg \<Rightarrow> app \<Rightarrow> app" where
  "add_log m a = a\<lparr>log_lines := log_lines a @ [m]\<rparr>"

section \<open>Poll interval: \<^verbatim>\<open>MainWindow._current_interval_sec\<close>\<close>

text \<open>
  The local function \<^verbatim>\<open>_ival(s, lo, hi, default=0)\<close>: \<^verbatim>\<open>int(s or default)\<close>, the
  default again on \<^verbatim>\<open>ValueError\<close>, then the clamp.
\<close>

definition ival :: "(string \<Rightarrow> int option) \<Rightarrow> string \<Rightarrow> int \<Rightarrow> int \<Rightarrow> int \<Rightarrow> int" where
  "ival int_of_str s lo hi dflt =
     (let v = (if s = [] then dflt
               else (case int_of_str s of None \<Rightarrow> dflt | Some n \<Rightarrow> n))
      in max lo (min hi v))"

definition current_interval_sec :: "(string \<Rightarrow> int option) \<Rightarrow> app \<Rightarrow> int" where
  "current_interval_sec int_of_str a =
     (let m = ival int_of_str (le_minutes a) 0 9999 0;
          s = ival int_of_str (le_seconds a) 0 59 0;
          total = m * 60 + s
      in max 1 total)"

definition channels :: "app \<Rightarrow> string list" where
  "channels a = map (\<lambda>login. lower (strip login)) (list_channels a)"

text \<open>
  \<^verbatim>\<open>_persist_config\<close>: the seven assignments to \<^verbatim>\<open>self.cfg\<close> and the call of
  \<^verbatim>\<open>save_config(self.cfg)\<close>, with \<^verbatim>\<open>self.cfg\<close> as the object at address 0.
\<close>

definition persist_config :: "(string \<Rightarrow> int option) \<Rightarrow> app \<Rightarrow> app" where
  "persist_config int_of_str a =
     (let c1 = AList.update ''client_id'' (JStr (strip (le_client_id a))) (cfg a);
          c2 = AList.update ''client_secret'' (JStr (strip (le_client_secret a))) c1;
          c3 = AList.update ''save_client_secret'' (JBool (cb_save_secret a)) c2;
          c4 = AList.update ''access_token'' (JStr (strip (le_token a))) c3;
          c5 = AList.update ''poll_interval_sec'' (JInt (current_interval_sec int_of_str a)) c4;
          c6 = AList.update ''channels'' (JArr (map JStr (channels a))) c5;
          c7 = AList.update ''autostart'' (JBool (cb_autostart a)) c6
      in case save_config (disk a) [c7] 0 (config_file a) of
           (h, file) \<Rightarrow> a\<lparr>cfg := h ! 0, config_file := file\<rparr>)"

section \<open>Credentials: \<^verbatim>\<open>MainWindow._ensure_token\<close>\<close>

datatype exn = RequestException string | OtherException string

text \<open>
  What a call of \<^verbatim>\<open>requests.post\<close> or \<^verbatim>\<open>requests.get\<close> gives: an exception, or a
  response with its status code, its text, and what \<^verbatim>\<open>r.json()\<close> gives (the exception
  it raises, or the parsed value). \<^verbatim>\<open>r.ok\<close> is \<^verbatim>\<open>requests\<close>' test that
  \<^verbatim>\<open>raise_for_status\<close> would not raise: the status is not in 400..599.
\<close>

record 'a response =
  status_code :: int
  body_text :: string
  json_body :: "exn + 'a"

datatype 'a reply = Raised exn | Response "'a response"

definition ok :: "'a response \<Rightarrow> bool" where
  "ok r = (\<not> (400 \<le> status_code r \<and> status_code r < 600))"

definition TOKEN_REFRESH_BUFFER_SEC :: int where
  "TOKEN_REFRESH_BUFFER_SEC = 300"

text \<open>How a modelled method ends: it returns a value, or an exception leaves it.\<close>

datatype 'a outcome = Returned 'a | Crashed

text \<open>
  Lines 562 to 574: the new token and its expiry go into \<^verbatim>\<open>self.cfg\<close> first, then the
  token field is set (\<^verbatim>\<open>setText\<close> raises \<^verbatim>\<open>TypeError\<close> for a value that is not a
  string), then the expiry label (\<^verbatim>\<open>_fmt_expiry_label\<close> returns at once for the epoch
  0 and calls \<^verbatim>\<open>time.localtime\<close> for every other one, which raises
  \<^verbatim>\<open>OverflowError\<close> or \<^verbatim>\<open>OSError\<close> for an epoch out of its range), then the
  credentials are stored and the configuration is persisted. The last \<^verbatim>\<open>except\<close>
  clause reports either exception and the method returns \<^verbatim>\<open>False\<close>, with the
  assignments made so far in place and nothing persisted.
\<close>

definition store_token ::
  "(string \<Rightarrow> int option) \<Rightarrow> int \<Rightarrow> jval \<Rightarrow> int \<Rightarrow> string \<Rightarrow> string \<Rightarrow> app
     \<Rightarrow> bool outcome \<times> app" where
  "store_token int_of_str now access_token expires_in client_id client_secret a =
     (let a1 = a\<lparr>cfg := AList.update ''token_expires_at'' (JInt (now + expires_in))
                            (AList.update ''access_token'' access_token (cfg a))\<rparr>
      in case access_token of
           JStr tok \<Rightarrow>
             (let a2 = a1\<lparr>le_token := tok\<rparr>
              in if now + expires_in \<noteq> 0 \<and> \<not> localtime_ok a2 (now + expires_in)
                 then (Returned False, add_log (LogUnknownError ''OverflowError'') a2)
                 else
                   (let a3 = a2\<lparr>cfg := AList.update ''save_client_secret''
                                            (JBool (cb_save_secret a2))
                                            (AList.update ''client_id'' (JStr client_id)
                                               (cfg a2))\<rparr>;
                        a4 = (if cb_save_secret a3
                              then a3\<lparr>cfg := AList.update ''client_secret''
                                                 (JStr client_secret) (cfg a3)\<rparr>
                              else a3)
                    in (Returned True, add_log LogTokenOk (persist_config int_of_str a4))))
         | _ \<Rightarrow> (Returned False, add_log (LogUnknownError ''TypeError'') a1))"

text \<open>
  The \<^verbatim>\<open>try\<close> block: the exchange and the reading of its answer. \<open>answer\<close> is what
  \<^verbatim>\<open>requests.post\<close> gives when it is called.
\<close>

definition exchange ::
  "(string \<Rightarrow> int option) \<Rightarrow> int \<Rightarrow> jval reply \<Rightarrow> string \<Rightarrow> string \<Rightarrow> app
     \<Rightarrow> bool outcome \<times> app" where
  "exchange int_of_str now answer client_id client_secret a =
     (case answer of
        Raised (RequestException e) \<Rightarrow> (Returned False, add_log (LogNetworkError e) a)
      | Raised (OtherException e) \<Rightarrow> (Returned False, add_log (LogUnknownError e) a)
      | Response r \<Rightarrow>
          if \<not> ok r then
            (Returned False, add_log (LogTokenHttp (status_code r) (take 200 (body_text r))) a)
          else
            (case json_body r of
               Inl (RequestException e) \<Rightarrow> (Returned False, add_log (LogNetworkError e) a)
             | Inl (OtherException e) \<Rightarrow> (Returned False, add_log (LogUnknownError e) a)
             | Inr (JObj payload) \<Rightarrow>
                 (case int_of_jval int_of_str (dict_get payload ''expires_in'' (JInt 0)) of
                    None \<Rightarrow> (Returned False, add_log (LogUnknownError ''ValueError'') a)
                  | Some expires_in \<Rightarrow>
                      if \<not> truthy (dict_get payload ''access_token'' (JStr [])) \<or> expires_in = 0
                      then (Returned False, add_log LogTokenMalformed a)
                      else store_token int_of_str now
                             (dict_get payload ''access_token'' (JStr []))
                             expires_in client_id client_secret a)
             | Inr _ \<Rightarrow> (Returned False, add_log (LogUnknownError ''AttributeError'') a)))"

text \<open>
  \<^verbatim>\<open>_ensure_token(force, force_refresh)\<close> at the time \<open>now\<close>. The result is the
  outcome, the new state and the forms posted to the token endpoint. The conversion of the
  stored expiry stands before the \<^verbatim>\<open>try\<close>, so an exception of it leaves the method.
\<close>

definition ensure_token ::
  "(string \<Rightarrow> int option) \<Rightarrow> int \<Rightarrow> jval reply \<Rightarrow> bool \<Rightarrow> bool \<Rightarrow> app
     \<Rightarrow> bool outcome \<times> app \<times> (string \<times> string) list list" where
  "ensure_token int_of_str now answer force force_refresh a =
     (let client_id = strip (le_client_id a);
          client_secret = strip (le_client_secret a)
      in case int_of_jval int_of_str (dict_get (cfg a) ''token_expires_at'' (JInt 0)) of
           None \<Rightarrow> (Crashed, a, [])
         | Some exp_at \<Rightarrow>
             if \<not> force_refresh \<and> truthy (dict_get (cfg a) ''access_token'' JNull)
                \<and> exp_at - now > TOKEN_REFRESH_BUFFER_SEC \<and> \<not> force
             then (Returned True, a, [])
             else if client_id = [] then (Returned False, add_log LogNeedClientId a, [])
             else if client_secret = [] then
               (Returned False, if force then add_log LogNeedSecret a else a, [])
             else
               (case exchange int_of_str now answer client_id client_secret a of
                  (r, a') \<Rightarrow>
                    (r, a', [[(''client_id'', client_id), (''client_secret'', client_secret),
                              (''grant_type'', ''client_credentials'')]])))"

section \<open>Scheduler: \<^verbatim>\<open>MainWindow._start_poll\<close>\<close>

definition invoke_check :: "app \<Rightarrow> app" where
  "invoke_check a =
     (if channels a = [] then add_log LogEmptyChannels a
      else a\<lparr>sig_check := sig_check a @ [channels a]\<rparr>)"

text \<open>
  \<^verbatim>\<open>_start_poll\<close>: persist, clear the session records, make sure of a token, start the
  timer, switch the buttons, log, and ask for the first check.
\<close>

definition start_poll ::
  "(string \<Rightarrow> int option) \<Rightarrow> int \<Rightarrow> jval reply \<Rightarrow> app
     \<Rightarrow> unit outcome \<times> app \<times> (string \<times> string) list list" where
  "start_poll int_of_str now answer a =
     (let a1 = persist_config int_of_str a;
          a2 = a1\<lparr>live_sessions := Map.empty\<rparr>
      in case ensure_token int_of_str now answer False False a2 of
           (Crashed, a3, posts) \<Rightarrow> (Crashed, a3, posts)
         | (Returned got, a3, posts) \<Rightarrow>
             (let a4 = (if \<not> got then add_log LogNoToken a3 else a3);
                  a5 = a4\<lparr>timer := Some (current_interval_sec int_of_str a4 * 1000)\<rparr>;
                  a6 = a5\<lparr>btn_start_enabled := False, btn_stop_enabled := True\<rparr>;
                  a7 = add_log (LogStarted (current_interval_sec int_of_str a6)) a6
              in (Returned (), invoke_check a7, posts)))"

section \<open>Status fetcher: \<^verbatim>\<open>TwitchChecker.check_channels\<close>\<close>

text \<open>
  One element of the \<^verbatim>\<open>data\<close> array of a streams answer: an object with the fields
  \<^verbatim>\<open>user_login\<close>, \<^verbatim>\<open>title\<close>, \<^verbatim>\<open>started_at\<close> and \<^verbatim>\<open>id\<close> as strings (a field
  that is missing or null reads as the empty string, by \<^verbatim>\<open>item.get(k, "") or ""\<close>), or
  \<open>Bad\<close>: anything on which the loop body raises, such as an element that is not an
  object or a \<^verbatim>\<open>user_login\<close> that is not a string. \<open>json_body\<close> of a streams answer is
  \<^verbatim>\<open>r.json().get("data", [])\<close>.
\<close>

datatype elem = Item string string string string | Bad

type_synonym out = "(string \<times> info) list"

text \<open>
  The headers of a request: a value is a text, or \<open>Bearer v\<close> for the text
  \<^verbatim>\<open>f"Bearer {v}"\<close>.
\<close>

datatype hval = Plain string | Bearer jval

type_synonym headers = "(string \<times> hval) list"

text \<open>The texts of \<^verbatim>\<open>errorSignal\<close>.\<close>

datatype errmsg =
  ErrText string
| ErrNotReady
| ErrRefreshFailed
| ErrQueryFailed int string
| ErrNetwork string
| ErrUnknown string

text \<open>
  What the worker does, in order: calls of the \<^verbatim>\<open>get_headers\<close> callable (with its
  \<^verbatim>\<open>force_refresh\<close> argument), calls of \<^verbatim>\<open>requests.get\<close> (with the headers, the
  logins of the batch and the answer), and emissions of its three signals.
\<close>

datatype action =
  GetHeaders bool
| HttpGet headers "string list" "elem list reply"
| AuthErrorSignal
| ErrorSignal errmsg
| ResultReady out

definition offline_info :: info where
  "offline_info = \<lparr>live = False, title = [], started_at = [], id_str = []\<rparr>"

text \<open>
  \<^verbatim>\<open>[l.strip().lower() for l in logins if l and l.strip()]\<close>.
\<close>

definition normalize :: "string list \<Rightarrow> string list" where
  "normalize logins =
     map (\<lambda>l. lower (strip l)) (filter (\<lambda>l. l \<noteq> [] \<and> strip l \<noteq> []) logins)"

text \<open>The dict comprehension that maps every login to the offline entry.\<close>

definition initial_out :: "string list \<Rightarrow> out" where
  "initial_out logins = foldl (\<lambda>out l. AList.update l offline_info out) [] logins"

text \<open>
  \<^verbatim>\<open>[logins[i:i + 100] for i in range(0, len(logins), 100)]\<close>.
\<close>

function chunks100 :: "'a list \<Rightarrow> 'a list list" where
  "chunks100 xs = (if xs = [] then [] else take 100 xs # chunks100 (drop 100 xs))"
  by pat_completeness auto
termination
  by (relation "measure length") auto

declare chunks100.simps [simp del]

text \<open>How one round of the loop over the batches ends.\<close>

datatype flow = Next | Break | Abort exn

text \<open>
  The loop over \<^verbatim>\<open>data\<close>: every item overwrites the entry of its lower-cased login. An
  exception leaves the entries written so far in place.
\<close>

fun apply_items :: "elem list \<Rightarrow> out \<Rightarrow> flow \<times> out" where
  "apply_items [] out = (Next, out)"
| "apply_items (Bad # rest) out = (Abort (OtherException ''AttributeError''), out)"
| "apply_items (Item user_login t s sid # rest) out =
     apply_items rest
       (AList.update (lower user_login)
          \<lparr>live = True, title = t, started_at = s, id_str = sid\<rparr> out)"

text \<open>
  From \<^verbatim>\<open>if not r.ok\<close> to the end of the loop body, for the response \<open>r\<close> that
  is current there.
\<close>

definition read_answer :: "elem list response \<Rightarrow> out \<Rightarrow> flow \<times> out \<times> action list" where
  "read_answer r out =
     (if \<not> ok r then
        (Next, out,
         [ErrorSignal (ErrQueryFailed (status_code r) (take 200 (body_text r)))])
      else
        (case json_body r of
           Inl e \<Rightarrow> (Abort e, out, [])
         | Inr data \<Rightarrow> (case apply_items data out of (fl, out') \<Rightarrow> (fl, out', []))))"

text \<open>
  The body of the loop over the batches. \<open>get_headers\<close> is the callable given to the
  constructor and \<open>http_get\<close> is \<^verbatim>\<open>requests.get\<close> on the streams endpoint; both act
  on a state \<open>w\<close> of the world outside. The callable returns its triple or raises.
\<close>

definition do_chunk ::
  "(bool \<Rightarrow> 'w \<Rightarrow> (exn + bool \<times> headers \<times> string) \<times> 'w)
     \<Rightarrow> (headers \<Rightarrow> string list \<Rightarrow> 'w \<Rightarrow> elem list reply \<times> 'w)
     \<Rightarrow> headers \<Rightarrow> string list \<Rightarrow> out \<times> 'w \<Rightarrow> flow \<times> out \<times> action list \<times> 'w" where
  "do_chunk get_headers http_get hdrs chunk st =
     (case st of (out, w) \<Rightarrow>
      (case http_get hdrs chunk w of (answer, w1) \<Rightarrow>
       (case answer of
          Raised e \<Rightarrow> (Abort e, out, [HttpGet hdrs chunk answer], w1)
        | Response r \<Rightarrow>
            if status_code r = 401 then
              (case get_headers True w1 of
                 (Inl e, w2) \<Rightarrow>
                   (Abort e, out,
                    [HttpGet hdrs chunk answer, AuthErrorSignal, GetHeaders True], w2)
               | (Inr (ok2, headers2, err2), w2) \<Rightarrow>
                 if \<not> ok2 then
                   (Break, out,
                    [HttpGet hdrs chunk answer, AuthErrorSignal, GetHeaders True,
                     ErrorSignal (if err2 \<noteq> [] then ErrText err2 else ErrRefreshFailed)],
                    w2)
                 else
                   (case http_get headers2 chunk w2 of (answer2, w3) \<Rightarrow>
                      (case answer2 of
                         Raised e \<Rightarrow>
                           (Abort e, out,
                            [HttpGet hdrs chunk answer, AuthErrorSignal, GetHeaders True,
                             HttpGet headers2 chunk answer2],
                            w3)
                       | Response r2 \<Rightarrow>
                           (case read_answer r2 out of (fl, out', t) \<Rightarrow>
                              (fl, out',
                               [HttpGet hdrs chunk answer, AuthErrorSignal, GetHeaders True,
                                HttpGet headers2 chunk answer2] @ t,
                               w3)))))
            else
              (case read_answer r out of (fl, out', t) \<Rightarrow>
                 (fl, out', HttpGet hdrs chunk answer # t, w1)))))"

text \<open>
  The loop over the batches: \<^verbatim>\<open>continue\<close> and the end of the body go on with the next
  batch, \<^verbatim>\<open>break\<close> and an exception end the loop.
\<close>

fun run_chunks ::
  "(bool \<Rightarrow> 'w \<Rightarrow> (exn + bool \<times> headers \<times> string) \<times> 'w)
     \<Rightarrow> (headers \<Rightarrow> string list \<Rightarrow> 'w \<Rightarrow> elem list reply \<times> 'w)
     \<Rightarrow> headers \<Rightarrow> string list list \<Rightarrow> out \<times> 'w \<Rightarrow> flow \<times> out \<times> action list \<times> 'w" where
  "run_chunks get_headers http_get hdrs [] (out, w) = (Next, out, [], w)"
| "run_chunks get_headers http_get hdrs (chunk # chunks) (out, w) =
     (case do_chunk get_headers http_get hdrs chunk (out, w) of
        (Next, out', t, w') \<Rightarrow>
          (case run_chunks get_headers http_get hdrs chunks (out', w') of
             (fl, out'', t', w'') \<Rightarrow> (fl, out'', t @ t', w''))
      | (Break, out', t, w') \<Rightarrow> (Break, out', t, w')
      | (Abort e, out', t, w') \<Rightarrow> (Abort e, out', t, w'))"

text \<open>
  \<^verbatim>\<open>check_channels(logins)\<close>: how the call ends, the actions in order, and the world
  afterwards. The first call of the callable stands before the \<^verbatim>\<open>try\<close>, so an
  exception of it leaves the method; every exception after it is reported.
\<close>

definition check_channels ::
  "(bool \<Rightarrow> 'w \<Rightarrow> (exn + bool \<times> headers \<times> string) \<times> 'w)
     \<Rightarrow> (headers \<Rightarrow> string list \<Rightarrow> 'w \<Rightarrow> elem list reply \<times> 'w)
     \<Rightarrow> string list \<Rightarrow> 'w \<Rightarrow> unit outcome \<times> action list \<times> 'w" where
  "check_channels get_headers http_get logins w =
     (let logins' = normalize logins;
          out = initial_out logins'
      in if logins' = [] then (Returned (), [ResultReady out], w)
         else
           (case get_headers False w of
              (Inl e, w1) \<Rightarrow> (Crashed, [GetHeaders False], w1)
            | (Inr (ok1, hdrs, err), w1) \<Rightarrow>
              if \<not> ok1 then
                (Returned (),
                 [GetHeaders False,
                  ErrorSignal (if err \<noteq> [] then ErrText err else ErrNotReady),
                  ResultReady out], w1)
              else
                (case run_chunks get_headers http_get hdrs (chunks100 logins') (out, w1) of
                   (Abort (RequestException e), out', t, w2) \<Rightarrow>
                     (Returned (),
                      GetHeaders False # t @ [ErrorSignal (ErrNetwork e), ResultReady out'], w2)
                 | (Abort (OtherException e), out', t, w2) \<Rightarrow>
                     (Returned (),
                      GetHeaders False # t @ [ErrorSignal (ErrUnknown e), ResultReady out'], w2)
                 | (fl, out', t, w2) \<Rightarrow>
                     (Returned (), GetHeaders False # t @ [ResultReady out'], w2))))"

text \<open>
  The logins that an action brings into the result: the lower-cased \<^verbatim>\<open>user_login\<close>
  values of the items of a streams answer whose status passes \<^verbatim>\<open>r.ok\<close>.
\<close>

fun names_in :: "elem list \<Rightarrow> string list" where
  "names_in [] = []"
| "names_in (Bad # rest) = names_in rest"
| "names_in (Item user_login t s sid # rest) = lower user_login # names_in rest"

definition answer_names :: "elem list response \<Rightarrow> string list" where
  "answer_names r =
     (if ok r then (case json_body r of Inl e \<Rightarrow> [] | Inr data \<Rightarrow> names_in data) else [])"

fun mentioned :: "action \<Rightarrow> string list" where
  "mentioned (HttpGet hdrs chunk (Response r)) = answer_names r"
| "mentioned a = []"

fun is_result :: "action \<Rightarrow> bool" where
  "is_result (ResultReady out) = True"
| "is_result a = False"

fun is_get :: "action \<Rightarrow> bool" where
  "is_get (HttpGet hdrs chunk answer) = True"
| "is_get a = False"

text \<open>
  A world for the examples: the state counts the calls of \<^verbatim>\<open>requests.get\<close>. The first
  call of \<open>get_headers\<close> gives headers and a forced refresh fails; every request is
  answered with status 401.
\<close>

definition stale_headers ::
  "bool \<Rightarrow> nat \<Rightarrow> (exn + bool \<times> headers \<times> string) \<times> nat" where
  "stale_headers force_refresh w =
     (if force_refresh then (Inr (False, [], []), w)
      else (Inr (True, [(''Authorization'', Bearer (JStr ''old''))], []), w))"

definition answer_401 :: "elem list response" where
  "answer_401 = \<lparr>status_code = 401, body_text = ''unauthorized'', json_body = Inr []\<rparr>"

definition always_401 :: "headers \<Rightarrow> string list \<Rightarrow> nat \<Rightarrow> elem list reply \<times> nat" where
  "always_401 hdrs chunk w = (Response answer_401, Suc w)"

text \<open>
  A second world: a forced refresh gives new headers; requests with the old headers get
  status 401, requests with the new ones get status 500 for the batch of \<open>alice\<close> and
  a live stream for every other batch.
\<close>

definition fresh_headers ::
  "bool \<Rightarrow> nat \<Rightarrow> (exn + bool \<times> headers \<times> string) \<times> nat" where
  "fresh_headers force_refresh w =
     (if force_refresh then (Inr (True, [(''Authorization'', Bearer (JStr ''new''))], []), w)
      else (Inr (True, [(''Authorization'', Bearer (JStr ''old''))], []), w))"

text \<open>A watch list of 101 logins, which makes two batches: \<open>a\<close>, \<open>aa\<close>, and so on.\<close>

definition hundred_and_one :: "string list" where
  "hundred_and_one = map (\<lambda>k. replicate k (CHR ''a'')) [1..<102]"

text \<open>A callable that raises whenever it is called.\<close>

definition failing_lookup ::
  "bool \<Rightarrow> nat \<Rightarrow> (exn + bool \<times> headers \<times> string) \<times> nat" where
  "failing_lookup force_refresh w = (Inl (OtherException ''TypeError''), w)"

definition answer_500 :: "elem list response" where
  "answer_500 = \<lparr>status_code = 500, body_text = ''oops'', json_body = Inr []\<rparr>"

definition answer_bob :: "elem list response" where
  "answer_bob =
     \<lparr>status_code = 200, body_text = [],
      json_body = Inr [Item ''Bob'' ''hello'' ''t1'' ''7'']\<rparr>"

definition picky_server :: "headers \<Rightarrow> string list \<Rightarrow> nat \<Rightarrow> elem list reply \<times> nat" where
  "picky_server hdrs chunk w =
     (if hdrs = [(''Authorization'', Bearer (JStr ''old''))] then (Response answer_401, Suc w)
      else if chunk = [''alice''] then (Response answer_500, Suc w)
      else (Response answer_bob, Suc w))"

section \<open>The worker's callable: \<^verbatim>\<open>MainWindow._get_headers_safely\<close>\<close>

text \<open>
  \<^verbatim>\<open>v - n\<close> for a JSON value \<open>v\<close> and an integer \<open>n\<close>; \<open>None\<close> when it raises
  \<^verbatim>\<open>TypeError\<close>.
\<close>

fun minus_jval :: "jval \<Rightarrow> int \<Rightarrow> int option" where
  "minus_jval (JInt m) n = Some (m - n)"
| "minus_jval (JBool b) n = Some ((if b then 1 else 0) - n)"
| "minus_jval (JStr s) n = None"
| "minus_jval JNull n = None"
| "minus_jval (JArr xs) n = None"
| "minus_jval (JObj kvs) n = None"

text \<open>The two error texts of the method, in English.\<close>

definition NO_TOKEN_TEXT :: string where
  "NO_TOKEN_TEXT = ''no valid access token yet''"

definition INCOMPLETE_TEXT :: string where
  "INCOMPLETE_TEXT = ''credentials are incomplete''"

text \<open>Lines 589 to 594: the triple that the method returns at its end.\<close>

definition headers_of :: "app \<Rightarrow> bool \<times> headers \<times> string" where
  "headers_of a =
     (let token = dict_get (cfg a) ''access_token'' (JStr []);
          client_id = strip (le_client_id a)
      in if \<not> truthy token \<or> client_id = [] then (False, [], INCOMPLETE_TEXT)
         else (True, [(''Client-Id'', Plain client_id), (''Authorization'', Bearer token)], []))"

text \<open>
  \<^verbatim>\<open>_get_headers_safely(force_refresh)\<close>. The clock is read in the first call of
  \<^verbatim>\<open>_ensure_token\<close>, in the method itself and in the second call of
  \<^verbatim>\<open>_ensure_token\<close>: \<open>now_a\<close>, \<open>now_b\<close> and \<open>now_c\<close>; \<open>answer_a\<close> and
  \<open>answer_c\<close> are what the token endpoint answers in the first and in the second call.
  The subtraction in line 587 stands outside every \<^verbatim>\<open>try\<close>.
\<close>

definition get_headers_safely ::
  "(string \<Rightarrow> int option) \<Rightarrow> int \<Rightarrow> jval reply \<Rightarrow> int \<Rightarrow> int \<Rightarrow> jval reply \<Rightarrow> bool \<Rightarrow> app
     \<Rightarrow> (bool \<times> headers \<times> string) outcome \<times> app" where
  "get_headers_safely int_of_str now_a answer_a now_b now_c answer_c force_refresh a =
     (case ensure_token int_of_str now_a answer_a False force_refresh a of
        (Crashed, a1, posts) \<Rightarrow> (Crashed, a1)
      | (Returned got, a1, posts) \<Rightarrow>
          if \<not> got then (Returned (False, [], NO_TOKEN_TEXT), a1)
          else if truthy (dict_get (cfg a1) ''access_token'' JNull) then
            (case minus_jval (dict_get (cfg a1) ''token_expires_at'' (JInt 0)) now_b of
               None \<Rightarrow> (Crashed, a1)
             | Some remain \<Rightarrow>
                 if remain \<le> TOKEN_REFRESH_BUFFER_SEC then
                   (case ensure_token int_of_str now_c answer_c False True a1 of
                      (Crashed, a2, posts2) \<Rightarrow> (Crashed, a2)
                    | (Returned got2, a2, posts2) \<Rightarrow> (Returned (headers_of a2), a2))
                 else (Returned (headers_of a1), a1))
          else (Returned (headers_of a1), a1))"

text \<open>
  The worker holds the bound method as its callable. What surrounds one call of it: the
  three readings of the clock and the two answers of the token endpoint.
\<close>

record visit =
  t_first :: int
  reply_first :: "jval reply"
  t_check :: int
  t_second :: int
  reply_second :: "jval reply"

text \<open>
  The callable as \<^verbatim>\<open>check_channels\<close> sees it: the world is the window's state and the
  number of calls made so far, \<open>visits k\<close> surrounds call number \<open>k\<close>, and an
  exception that leaves the method is what the call raises.
\<close>

definition window_lookup ::
  "(string \<Rightarrow> int option) \<Rightarrow> (nat \<Rightarrow> visit) \<Rightarrow> bool \<Rightarrow> app \<times> nat
     \<Rightarrow> (exn + bool \<times> headers \<times> string) \<times> (app \<times> nat)" where
  "window_lookup int_of_str visits force_refresh w =
     (case w of (a, k) \<Rightarrow>
      (case get_headers_safely int_of_str (t_first (visits k)) (reply_first (visits k))
              (t_check (visits k)) (t_second (visits k)) (reply_second (visits k))
              force_refresh a of
         (Returned triple, a') \<Rightarrow> (Inr triple, (a', Suc k))
       | (Crashed, a') \<Rightarrow> (Inl (OtherException ''TypeError''), (a', Suc k))))"

section \<open>Example inputs\<close>

text \<open>A call of the callable at the time 1000, with the token endpoint out of reach.\<close>

definition offline_visit :: visit where
  "offline_visit =
     \<lparr>t_first = 1000, reply_first = Raised (RequestException ''down''), t_check = 1000,
      t_second = 1000, reply_second = Raised (RequestException ''down'')\<rparr>"

text \<open>
  A window with a cached token that expires at 5000, credentials entered, an interval of
  one minute and thirty seconds, and one watched channel, on a platform whose
  \<^verbatim>\<open>time.localtime\<close> accepts the epochs from 0 to \<open>2 ^ 31 - 1\<close>.
\<close>

definition example_app :: app where
  "example_app =
     \<lparr>cfg = [(''access_token'', JStr ''tok''), (''token_expires_at'', JInt 5000)],
      le_client_id = ''cid'', le_client_secret = ''sec'', le_token = ''tok'',
      le_minutes = ''1'', le_seconds = ''30'', cb_save_secret = False, cb_autostart = False,
      list_channels = [''Alice''], live_sessions = Map.empty, timer = None,
      btn_start_enabled = True, btn_stop_enabled = False, log_lines = [],
      sig_check = [], config_file = None, disk = Written,
      localtime_ok = (\<lambda>t. 0 \<le> t \<and> t < 2 ^ 31)\<rparr>"


definition answer_complete :: "jval reply" where
  "answer_complete =
     Response \<lparr>status_code = 200, body_text = [],
               json_body = Inr (JObj [(''access_token'', JStr ''abc''),
                                      (''expires_in'', JInt 3600)])\<rparr>"


text \<open>
  A configuration dict with a secret and \<^verbatim>\<open>save_client_secret\<close> false, and one with a
  secret and no \<^verbatim>\<open>save_client_secret\<close> key at all.
\<close>

definition cfg_flag_false :: dict where
  "cfg_flag_false =
     [(''client_id'', JStr ''cid''), (''client_secret'', JStr ''hunter2''),
      (''save_client_secret'', JBool False)]"

definition cfg_flag_absent :: dict where
  "cfg_flag_absent = [(''client_secret'', JStr ''hunter2''), (''client_id'', JStr ''cid'')]"

text \<open>A session record of a broadcast that is live, and a poll result that sees it again.\<close>

definition alice_session :: session where
  "alice_session =
     \<lparr>session_id = ''100'', session_started_at = ''t0'', last_seen = 900,
      offline_since = None\<rparr>"

definition alice_live :: info where
  "alice_live = \<lparr>live = True, title = ''hi'', started_at = ''t0'', id_str = ''100''\<rparr>"

section \<open>Properties of the session tracker\<close>

lemma track_one_other:
  assumes "l \<noteq> login"
  shows "fst (track_one now (sessions, evs) (l, i)) login = sessions login"
    and "count_list (snd (track_one now (sessions, evs) (l, i))) (OpenStream login)
           = count_list evs (OpenStream login)"
  using assms by (auto split: option.splits)

lemma track_all_other:
  assumes "login \<notin> fst ` set xs"
  shows "fst (foldl (track_one now) (sessions, evs) xs) login = sessions login
         \<and> count_list (snd (foldl (track_one now) (sessions, evs) xs)) (OpenStream login)
             = count_list evs (OpenStream login)"
  using assms
proof (induction xs arbitrary: sessions evs)
  case Nil
  then show ?case by simp
next
  case (Cons x xs)
  obtain l i where x: "x = (l, i)" by (cases x)
  obtain s' e' where st: "track_one now (sessions, evs) (l, i) = (s', e')"
    by (cases "track_one now (sessions, evs) (l, i)")
  from Cons.prems x have neq: "l \<noteq> login" and rest: "login \<notin> fst ` set xs"
    by auto
  from track_one_other [OF neq, of now sessions evs i] st
  have "s' login = sessions login"
    and "count_list e' (OpenStream login) = count_list evs (OpenStream login)"
    by simp_all
  with Cons.IH [OF rest, of s' e'] x st show ?case by simp
qed

text \<open>
  With distinct keys, the run over the whole result does to one login what the single
  step for its entry does to the swept state.
\<close>

lemma on_result_at:
  assumes d: "distinct (map fst result)" and m: "(login, i) \<in> set result"
  shows "\<exists>s e. count_list e (OpenStream login) = 0 \<and> s login = sweep now sessions login
           \<and> fst (on_result now result sessions) login
               = fst (track_one now (s, e) (login, i)) login
           \<and> count_list (snd (on_result now result sessions)) (OpenStream login)
               = count_list (snd (track_one now (s, e) (login, i))) (OpenStream login)"
proof -
  from m obtain ys zs where r: "result = ys @ (login, i) # zs"
    by (auto dest: split_list)
  with d have ny: "login \<notin> fst ` set ys" and nz: "login \<notin> fst ` set zs"
    by auto
  obtain s e where pre: "foldl (track_one now) (sweep now sessions, []) ys = (s, e)"
    by (cases "foldl (track_one now) (sweep now sessions, []) ys")
  obtain s' e' where mid: "track_one now (s, e) (login, i) = (s', e')"
    by (cases "track_one now (s, e) (login, i)")
  from track_all_other [OF ny, of now "sweep now sessions" "[]"] pre
  have a: "s login = sweep now sessions login" "count_list e (OpenStream login) = 0"
    by simp_all
  from track_all_other [OF nz, of now s' e'] r pre mid
  have "fst (on_result now result sessions) login = s' login"
    and "count_list (snd (on_result now result sessions)) (OpenStream login)
           = count_list e' (OpenStream login)"
    by (simp_all add: on_result_def)
  with a mid show ?thesis
    by (intro exI [of _ s] exI [of _ e]) simp
qed

text \<open>
  C1. When the per-channel rules find no record for a channel (none was stored, or the
  sweep has just removed it), a poll result that reports the channel live fires the
  open-stream effect for it exactly once and creates a record whose session key is the
  stream id if that is non-empty and the started-at timestamp otherwise.
\<close>

theorem first_live_opens_once:
  assumes "distinct (map fst result)"
    and "(login, i) \<in> set result"
    and "live i"
    and "sweep now sessions login = None"
  shows "count_list (snd (on_result now result sessions)) (OpenStream login) = 1
         \<and> fst (on_result now result sessions) login
             = Some \<lparr>session_id = (if id_str i \<noteq> [] then id_str i else started_at i),
                     session_started_at = started_at i,
                     last_seen = now, offline_since = None\<rparr>"
proof -
  from on_result_at [OF assms(1,2), of now sessions]
  obtain s e where e0: "count_list e (OpenStream login) = 0"
    and s: "s login = sweep now sessions login"
    and f: "fst (on_result now result sessions) login
              = fst (track_one now (s, e) (login, i)) login"
    and c: "count_list (snd (on_result now result sessions)) (OpenStream login)
              = count_list (snd (track_one now (s, e) (login, i))) (OpenStream login)"
    by blast
  from s assms(4) have none: "s login = None" by simp
  from none assms(3) e0 have "count_list (snd (track_one now (s, e) (login, i))) (OpenStream login) = 1"
    by simp
  moreover from none assms(3)
  have "fst (track_one now (s, e) (login, i)) login
          = Some \<lparr>session_id = (if id_str i \<noteq> [] then id_str i else started_at i),
                  session_started_at = started_at i,
                  last_seen = now, offline_since = None\<rparr>"
    by (simp add: session_key_def)
  ultimately show ?thesis using f c by simp
qed

theorem first_live_opens_once_witness:
  "distinct (map fst
      [(''alice'', \<lparr>live = True, title = ''hi'', started_at = ''t0'', id_str = ''100''\<rparr>),
       (''bob'', \<lparr>live = False, title = [], started_at = [], id_str = []\<rparr>)])
   \<and> live \<lparr>live = True, title = ''hi'', started_at = ''t0'', id_str = ''100''\<rparr>
   \<and> sweep 1000 Map.empty ''alice'' = None
   \<and> count_list (snd (on_result 1000
          [(''alice'', \<lparr>live = True, title = ''hi'', started_at = ''t0'', id_str = ''100''\<rparr>),
           (''bob'', \<lparr>live = False, title = [], started_at = [], id_str = []\<rparr>)]
          Map.empty)) (OpenStream ''alice'') = 1
   \<and> fst (on_result 1000
          [(''alice'', \<lparr>live = True, title = ''hi'', started_at = ''t0'', id_str = ''100''\<rparr>),
           (''bob'', \<lparr>live = False, title = [], started_at = [], id_str = []\<rparr>)]
          Map.empty) ''alice''
       = Some \<lparr>session_id = ''100'', session_started_at = ''t0'',
               last_seen = 1000, offline_since = None\<rparr>"
proof -
  let ?a = "\<lparr>live = True, title = ''hi'', started_at = ''t0'', id_str = ''100''\<rparr>"
  let ?r = "[(''alice'', ?a), (''bob'', \<lparr>live = False, title = [], started_at = [], id_str = []\<rparr>)]"
  have h1: "distinct (map fst ?r)" by simp
  have h2: "(''alice'', ?a) \<in> set ?r" by simp
  have h3: "live ?a" by simp
  have h4: "sweep 1000 Map.empty ''alice'' = None" by (simp add: sweep_def)
  from first_live_opens_once [OF h1 h2 h3 h4] h1 h3 h4 show ?thesis by simp
qed

text \<open>
  C2. When the per-channel rules find a record for a channel (one that the sweep has
  left in place), a live observation fires no open-stream effect if the observed session
  key equals the record's key, or if the key differs but \<open>offline_since\<close> is set
  (a timestamp other than 0, which Python reads as unset) and at most 300 seconds have
  passed since. In both cases the record is updated: \<open>last_seen\<close> is the time of
  the poll, \<open>offline_since\<close> is cleared, and with a different key the record takes
  the new session key and started-at value.
\<close>

theorem live_with_record_suppressed:
  assumes "distinct (map fst result)"
    and "(login, i) \<in> set result"
    and "live i"
    and "sessions login = Some prev"
    and "\<not> expired now prev"
    and "session_key i = session_id prev
         \<or> (offline_since prev = Some t \<and> t \<noteq> 0 \<and> now - t \<le> RECONNECT_GRACE_SEC)"
  shows "count_list (snd (on_result now result sessions)) (OpenStream login) = 0
         \<and> fst (on_result now result sessions) login
             = Some (if session_key i = session_id prev
                     then prev\<lparr>last_seen := now, offline_since := None\<rparr>
                     else prev\<lparr>session_id := session_key i,
                               session_started_at := started_at i,
                               last_seen := now, offline_since := None\<rparr>)"
proof -
  from on_result_at [OF assms(1,2), of now sessions]
  obtain s e where e0: "count_list e (OpenStream login) = 0"
    and s: "s login = sweep now sessions login"
    and f: "fst (on_result now result sessions) login
              = fst (track_one now (s, e) (login, i)) login"
    and c: "count_list (snd (on_result now result sessions)) (OpenStream login)
              = count_list (snd (track_one now (s, e) (login, i))) (OpenStream login)"
    by blast
  from s assms(4,5) have some: "s login = Some prev" by (simp add: sweep_def)
  show ?thesis
  proof (cases "session_key i = session_id prev")
    case True
    with some assms(3) e0 f c show ?thesis by simp
  next
    case False
    with assms(6) have "within_grace now prev" by (auto simp: within_grace_def)
    with False some assms(3) e0 f c show ?thesis by simp
  qed
qed

theorem live_with_record_suppressed_witness:
  "(let same = \<lparr>live = True, title = [], started_at = ''t0'', id_str = ''100''\<rparr>;
        other = \<lparr>live = True, title = [], started_at = ''t1'', id_str = ''101''\<rparr>;
        prev = \<lparr>session_id = ''100'', session_started_at = ''t0'',
                 last_seen = 1000, offline_since = Some 1060\<rparr>;
        sessions = [''alice'' \<mapsto> prev]
    in \<not> expired 1180 prev
       \<and> session_key same = session_id prev
       \<and> count_list (snd (on_result 1180 [(''alice'', same)] sessions)) (OpenStream ''alice'') = 0
       \<and> fst (on_result 1180 [(''alice'', same)] sessions) ''alice''
           = Some (prev\<lparr>last_seen := 1180, offline_since := None\<rparr>)
       \<and> session_key other \<noteq> session_id prev
       \<and> 1180 - 1060 \<le> RECONNECT_GRACE_SEC
       \<and> count_list (snd (on_result 1180 [(''alice'', other)] sessions)) (OpenStream ''alice'') = 0
       \<and> fst (on_result 1180 [(''alice'', other)] sessions) ''alice''
           = Some \<lparr>session_id = ''101'', session_started_at = ''t1'',
                   last_seen = 1180, offline_since = None\<rparr>)"
proof -
  let ?same = "\<lparr>live = True, title = [], started_at = ''t0'', id_str = ''100''\<rparr>"
  let ?other = "\<lparr>live = True, title = [], started_at = ''t1'', id_str = ''101''\<rparr>"
  let ?prev = "\<lparr>session_id = ''100'', session_started_at = ''t0'',
                 last_seen = 1000, offline_since = Some 1060\<rparr>"
  let ?s = "[''alice'' \<mapsto> ?prev]"
  have g: "\<not> expired 1180 ?prev" by (simp add: expired_def RECONNECT_GRACE_SEC_def)
  have k1: "session_key ?same = session_id ?prev" by (simp add: session_key_def)
  have k2: "session_key ?other \<noteq> session_id ?prev" by (simp add: session_key_def)
  have w: "(1180::int) - 1060 \<le> RECONNECT_GRACE_SEC" by (simp add: RECONNECT_GRACE_SEC_def)
  have a: "count_list (snd (on_result 1180 [(''alice'', ?same)] ?s)) (OpenStream ''alice'') = 0
           \<and> fst (on_result 1180 [(''alice'', ?same)] ?s) ''alice''
               = Some (?prev\<lparr>last_seen := 1180, offline_since := None\<rparr>)"
    using live_with_record_suppressed
            [of "[(''alice'', ?same)]" "''alice''" ?same ?s ?prev 1180 1060] g k1
    by simp
  have b: "count_list (snd (on_result 1180 [(''alice'', ?other)] ?s)) (OpenStream ''alice'') = 0
           \<and> fst (on_result 1180 [(''alice'', ?other)] ?s) ''alice''
               = Some \<lparr>session_id = ''101'', session_started_at = ''t1'',
                       last_seen = 1180, offline_since = None\<rparr>"
    using live_with_record_suppressed
            [of "[(''alice'', ?other)]" "''alice''" ?other ?s ?prev 1180 1060] g k2 w
    by (simp add: session_key_def)
  from g k1 k2 w a b show ?thesis by (simp add: Let_def)
qed

lemma track_one_stays_none:
  assumes "sessions login = None" and "l = login \<longrightarrow> \<not> live i"
  shows "fst (track_one now (sessions, evs) (l, i)) login = None"
  using assms by (auto split: option.splits)

lemma track_all_stays_none:
  assumes "sessions login = None" and "\<forall>i. (login, i) \<in> set xs \<longrightarrow> \<not> live i"
  shows "fst (foldl (track_one now) (sessions, evs) xs) login = None"
  using assms
proof (induction xs arbitrary: sessions evs)
  case Nil
  then show ?case by simp
next
  case (Cons x xs)
  obtain l i where x: "x = (l, i)" by (cases x)
  obtain s' e' where st: "track_one now (sessions, evs) (l, i) = (s', e')"
    by (cases "track_one now (sessions, evs) (l, i)")
  from Cons.prems x have "l = login \<longrightarrow> \<not> live i" by auto
  from track_one_stays_none [where sessions = sessions and login = login and l = l and i = i
         and now = now and evs = evs, OF Cons.prems(1) this] st
  have "s' login = None" by simp
  moreover from Cons.prems(2) have "\<forall>i. (login, i) \<in> set xs \<longrightarrow> \<not> live i" by auto
  ultimately show ?case using Cons.IH [of s' e'] x st by simp
qed

lemma sweep_expired:
  assumes "sessions login = Some old" and "expired now old"
  shows "sweep now sessions login = None"
    and "sweep now (sessions(login := None)) = sweep now sessions"
  using assms by (auto simp: sweep_def)

text \<open>
  C3. Every application of a poll result starts with the expiry sweep: a record whose
  \<open>offline_since\<close> is set (a timestamp other than 0) and lies more than 300 seconds
  back is gone before the per-channel rules run, so the whole application behaves as if
  the record had never been stored. The record stays deleted when the result has no live
  entry for the channel; when the result reports the channel live, the open-stream effect
  fires exactly once and a fresh record is created, whether or not the observed session
  key equals the key of the deleted record.
\<close>

theorem expired_record_swept:
  assumes "sessions login = Some old"
    and "offline_since old = Some t"
    and "t \<noteq> 0"
    and "now - t > RECONNECT_GRACE_SEC"
  shows "sweep now sessions login = None
         \<and> on_result now result sessions = on_result now result (sessions(login := None))
         \<and> ((\<forall>j. (login, j) \<in> set result \<longrightarrow> \<not> live j)
              \<longrightarrow> fst (on_result now result sessions) login = None)
         \<and> (distinct (map fst result) \<and> (login, i) \<in> set result \<and> live i
              \<longrightarrow> count_list (snd (on_result now result sessions)) (OpenStream login) = 1
                  \<and> fst (on_result now result sessions) login
                      = Some \<lparr>session_id = session_key i,
                              session_started_at = started_at i,
                              last_seen = now, offline_since = None\<rparr>)"
proof -
  from assms(2-4) have ex: "expired now old" by (simp add: expired_def)
  note sw = sweep_expired [where sessions = sessions and login = login and old = old
              and now = now, OF assms(1) ex]
  have a: "on_result now result sessions = on_result now result (sessions(login := None))"
    by (simp add: on_result_def sw(2))
  have b: "fst (on_result now result sessions) login = None"
    if "\<forall>j. (login, j) \<in> set result \<longrightarrow> \<not> live j"
    using track_all_stays_none [where sessions = "sweep now sessions" and login = login
            and xs = result and now = now and evs = "[]", OF sw(1) that]
    by (simp add: on_result_def)
  have c: "count_list (snd (on_result now result sessions)) (OpenStream login) = 1
           \<and> fst (on_result now result sessions) login
               = Some \<lparr>session_id = session_key i, session_started_at = started_at i,
                       last_seen = now, offline_since = None\<rparr>"
    if d: "distinct (map fst result)" and m: "(login, i) \<in> set result" and l: "live i"
  proof -
    from on_result_at [OF d m, of now sessions]
    obtain s e where e0: "count_list e (OpenStream login) = 0"
      and s: "s login = sweep now sessions login"
      and f: "fst (on_result now result sessions) login
                = fst (track_one now (s, e) (login, i)) login"
      and c: "count_list (snd (on_result now result sessions)) (OpenStream login)
                = count_list (snd (track_one now (s, e) (login, i))) (OpenStream login)"
      by blast
    from s sw(1) have "s login = None" by simp
    with l e0 f c show ?thesis by simp
  qed
  from sw(1) a b c show ?thesis by blast
qed

theorem expired_record_swept_witness:
  "(let old = \<lparr>session_id = ''100'', session_started_at = ''t0'',
                last_seen = 1000, offline_since = Some 1060\<rparr>;
        sessions = [''alice'' \<mapsto> old];
        same = \<lparr>live = True, title = [], started_at = ''t0'', id_str = ''100''\<rparr>;
        off = \<lparr>live = False, title = [], started_at = [], id_str = []\<rparr>
    in sessions ''alice'' = Some old
       \<and> offline_since old = Some 1060
       \<and> 1460 - 1060 > RECONNECT_GRACE_SEC
       \<and> session_key same = session_id old
       \<and> sweep 1460 sessions ''alice'' = None
       \<and> fst (on_result 1460 [(''alice'', off)] sessions) ''alice'' = None
       \<and> distinct (map fst [(''alice'', same)]) \<and> live same
       \<and> count_list (snd (on_result 1460 [(''alice'', same)] sessions)) (OpenStream ''alice'') = 1
       \<and> fst (on_result 1460 [(''alice'', same)] sessions) ''alice''
           = Some \<lparr>session_id = ''100'', session_started_at = ''t0'',
                   last_seen = 1460, offline_since = None\<rparr>)"
proof -
  let ?old = "\<lparr>session_id = ''100'', session_started_at = ''t0'',
                last_seen = 1000, offline_since = Some 1060\<rparr>"
  let ?s = "[''alice'' \<mapsto> ?old]"
  let ?same = "\<lparr>live = True, title = [], started_at = ''t0'', id_str = ''100''\<rparr>"
  let ?off = "\<lparr>live = False, title = [], started_at = [], id_str = []\<rparr>"
  have h1: "?s ''alice'' = Some ?old" by simp
  have h2: "offline_since ?old = Some 1060" by simp
  have h3: "(1060::int) \<noteq> 0" by simp
  have h4: "(1460::int) - 1060 > RECONNECT_GRACE_SEC" by (simp add: RECONNECT_GRACE_SEC_def)
  have k: "session_key ?same = session_id ?old" by (simp add: session_key_def)
  note off = expired_record_swept [where sessions = ?s and login = "''alice''" and old = ?old
         and t = 1060 and now = 1460 and result = "[(''alice'', ?off)]" and i = ?off,
         OF h1 h2 h3 h4]
  note on = expired_record_swept [where sessions = ?s and login = "''alice''" and old = ?old
         and t = 1060 and now = 1460 and result = "[(''alice'', ?same)]" and i = ?same,
         OF h1 h2 h3 h4]
  from off [THEN conjunct1]
  have a: "sweep 1460 ?s ''alice'' = None" .
  from off [THEN conjunct2, THEN conjunct2, THEN conjunct1]
  have b: "fst (on_result 1460 [(''alice'', ?off)] ?s) ''alice'' = None"
    by simp
  from on [THEN conjunct2, THEN conjunct2, THEN conjunct2]
  have c: "count_list (snd (on_result 1460 [(''alice'', ?same)] ?s)) (OpenStream ''alice'') = 1
           \<and> fst (on_result 1460 [(''alice'', ?same)] ?s) ''alice''
               = Some \<lparr>session_id = ''100'', session_started_at = ''t0'',
                       last_seen = 1460, offline_since = None\<rparr>"
    by (simp add: session_key_def)
  from h4 k a b c show ?thesis by (simp add: Let_def)
qed

section \<open>Properties of the window's methods\<close>

lemma add_log_fields [simp]:
  "cfg (add_log m a) = cfg a"
  "le_minutes (add_log m a) = le_minutes a"
  "le_seconds (add_log m a) = le_seconds a"
  "timer (add_log m a) = timer a"
  "live_sessions (add_log m a) = live_sessions a"
  "list_channels (add_log m a) = list_channels a"
  "log_lines (add_log m a) = log_lines a @ [m]"
  "config_file (add_log m a) = config_file a"
  by (simp_all add: add_log_def)

lemma persist_config_fields:
  "le_minutes (persist_config P a) = le_minutes a"
  "le_seconds (persist_config P a) = le_seconds a"
  "timer (persist_config P a) = timer a"
  "live_sessions (persist_config P a) = live_sessions a"
  "list_channels (persist_config P a) = list_channels a"
  "log_lines (persist_config P a) = log_lines a"
  by (simp_all add: persist_config_def Let_def split: prod.splits)

lemma persist_config_cfg:
  "map_of (cfg (persist_config P a)) ''access_token'' = Some (JStr (strip (le_token a)))"
  "map_of (cfg (persist_config P a)) ''token_expires_at'' = map_of (cfg a) ''token_expires_at''"
  by (simp_all add: persist_config_def save_config_def Let_def update_conv' nth_append)

lemma store_token_fields:
  assumes "store_token P now tok n cid sec a = (r, a')"
  shows "le_minutes a' = le_minutes a \<and> le_seconds a' = le_seconds a \<and> timer a' = timer a
         \<and> live_sessions a' = live_sessions a \<and> list_channels a' = list_channels a"
  using assms
  by (auto simp: store_token_def Let_def persist_config_fields split: jval.splits if_splits)

lemma exchange_fields:
  assumes "exchange P now answer cid sec a = (r, a')"
  shows "le_minutes a' = le_minutes a \<and> le_seconds a' = le_seconds a \<and> timer a' = timer a
         \<and> live_sessions a' = live_sessions a \<and> list_channels a' = list_channels a"
  using assms
  by (auto simp: exchange_def dest!: store_token_fields
           split: reply.splits exn.splits if_splits sum.splits jval.splits option.splits)

lemma ensure_token_fields:
  assumes "ensure_token P now answer force fr a = (r, a', posts)"
  shows "le_minutes a' = le_minutes a \<and> le_seconds a' = le_seconds a \<and> timer a' = timer a
         \<and> live_sessions a' = live_sessions a \<and> list_channels a' = list_channels a"
  using assms
  by (auto simp: ensure_token_def Let_def dest!: exchange_fields
           split: option.splits if_splits prod.splits)

lemma store_token_returns: "fst (store_token P now tok n cid sec a) \<noteq> Crashed"
  by (simp add: store_token_def Let_def split: jval.splits)

lemma exchange_returns: "fst (exchange P now answer cid sec a) \<noteq> Crashed"
  using store_token_returns
  by (simp add: exchange_def
           split: reply.splits exn.splits sum.splits jval.splits option.splits)

lemma ensure_token_returns:
  assumes "int_of_jval P (dict_get (cfg a) ''token_expires_at'' (JInt 0)) = Some e"
  shows "fst (ensure_token P now answer force fr a) \<noteq> Crashed"
  using assms exchange_returns [of P now answer "strip (le_client_id a)" "strip (le_client_secret a)" a]
  by (auto simp: ensure_token_def Let_def split: prod.splits)

lemma start_poll_returns:
  assumes "int_of_jval P (dict_get (cfg a) ''token_expires_at'' (JInt 0)) = Some e"
  shows "fst (start_poll P now answer a) = Returned ()"
proof -
  let ?a2 = "(persist_config P a)\<lparr>live_sessions := Map.empty\<rparr>"
  from assms have "int_of_jval P (dict_get (cfg ?a2) ''token_expires_at'' (JInt 0)) = Some e"
    by (simp add: dict_get_def persist_config_cfg)
  from ensure_token_returns [OF this, of now answer False False]
  have "fst (ensure_token P now answer False False ?a2) \<noteq> Crashed" .
  then show ?thesis
    by (cases "ensure_token P now answer False False ?a2"; cases "fst (ensure_token P now answer False False ?a2)")
       (simp_all add: start_poll_def Let_def)
qed

text \<open>
  C5. A call of \<^verbatim>\<open>_ensure_token\<close> with neither \<^verbatim>\<open>force\<close> nor \<^verbatim>\<open>force_refresh\<close>,
  a non-empty cached token and more than 300 seconds left before the stored expiry
  returns \<^verbatim>\<open>True\<close>, posts nothing to the token endpoint and leaves the whole state,
  the cached token and its expiry included, as it was.
\<close>

theorem cached_token_reused:
  assumes "\<not> force" and "\<not> force_refresh"
    and "map_of (cfg a) ''access_token'' = Some (JStr tok)" and "tok \<noteq> []"
    and "map_of (cfg a) ''token_expires_at'' = Some (JInt exp_at)"
    and "exp_at - now > TOKEN_REFRESH_BUFFER_SEC"
  shows "ensure_token int_of_str now answer force force_refresh a = (Returned True, a, [])"
  using assms by (simp add: ensure_token_def dict_get_def)

theorem cached_token_reused_witness:
  "map_of (cfg example_app) ''access_token'' = Some (JStr ''tok'')
   \<and> map_of (cfg example_app) ''token_expires_at'' = Some (JInt 5000)
   \<and> 5000 - 1000 > TOKEN_REFRESH_BUFFER_SEC
   \<and> ensure_token decimal 1000 (Raised (RequestException ''down'')) False False example_app
       = (Returned True, example_app, [])"
proof -
  have h1: "map_of (cfg example_app) ''access_token'' = Some (JStr ''tok'')"
    by (simp add: example_app_def)
  have h2: "map_of (cfg example_app) ''token_expires_at'' = Some (JInt 5000)"
    by (simp add: example_app_def)
  have h3: "(5000::int) - 1000 > TOKEN_REFRESH_BUFFER_SEC"
    by (simp add: TOKEN_REFRESH_BUFFER_SEC_def)
  from cached_token_reused [where force = False and force_refresh = False and a = example_app
         and tok = "''tok''" and exp_at = 5000 and now = 1000 and int_of_str = decimal
         and answer = "Raised (RequestException ''down'')", OF _ _ h1 _ h2 h3]
  have "ensure_token decimal 1000 (Raised (RequestException ''down'')) False False example_app
          = (Returned True, example_app, [])"
    by simp
  with h1 h2 h3 show ?thesis by simp
qed

text \<open>
  C8. \<^verbatim>\<open>_current_interval_sec\<close> reads the minutes field as a value in 0..9999 and the
  seconds field as a value in 0..59, each on its own, an empty field or one that
  \<^verbatim>\<open>int\<close> rejects counting as 0, and returns \<open>max 1 (60 * minutes + seconds)\<close>. So
  the interval is at least one second, and \<^verbatim>\<open>_start_poll\<close>, when it gets as far as
  starting the timer, starts it with that interval in milliseconds, at least 1000.
\<close>

theorem interval_clamped:
  "(let m = ival int_of_str (le_minutes a) 0 9999 0;
        s = ival int_of_str (le_seconds a) 0 59 0
    in 0 \<le> m \<and> m \<le> 9999 \<and> 0 \<le> s \<and> s \<le> 59
       \<and> m = (if le_minutes a = [] then 0
              else case int_of_str (le_minutes a) of
                     None \<Rightarrow> 0 | Some n \<Rightarrow> max 0 (min 9999 n))
       \<and> s = (if le_seconds a = [] then 0
              else case int_of_str (le_seconds a) of
                     None \<Rightarrow> 0 | Some n \<Rightarrow> max 0 (min 59 n))
       \<and> current_interval_sec int_of_str a = max 1 (60 * m + s)
       \<and> 1 \<le> current_interval_sec int_of_str a
       \<and> (case start_poll int_of_str now answer a of
            (Returned u, a', posts) \<Rightarrow>
              timer a' = Some (current_interval_sec int_of_str a * 1000)
              \<and> 1000 \<le> current_interval_sec int_of_str a * 1000
          | (Crashed, a', posts) \<Rightarrow> timer a' = timer a))"
proof -
  have b: "1 \<le> current_interval_sec int_of_str a"
    by (simp add: current_interval_sec_def Let_def)
  have t: "(case start_poll int_of_str now answer a of
            (Returned u, a', posts) \<Rightarrow>
              timer a' = Some (current_interval_sec int_of_str a * 1000)
              \<and> 1000 \<le> current_interval_sec int_of_str a * 1000
          | (Crashed, a', posts) \<Rightarrow> timer a' = timer a)"
  proof -
    let ?a2 = "(persist_config int_of_str a)\<lparr>live_sessions := Map.empty\<rparr>"
    obtain r a3 posts where e: "ensure_token int_of_str now answer False False ?a2 = (r, a3, posts)"
      by (cases "ensure_token int_of_str now answer False False ?a2")
    from ensure_token_fields [OF e]
    have f: "le_minutes a3 = le_minutes a" "le_seconds a3 = le_seconds a" "timer a3 = timer a"
      by (simp_all add: persist_config_fields)
    then have c: "current_interval_sec int_of_str a3 = current_interval_sec int_of_str a"
      by (simp add: current_interval_sec_def)
    show ?thesis
    proof (cases r)
      case (Returned got)
      have "current_interval_sec int_of_str (add_log LogNoToken a3)
              = current_interval_sec int_of_str a"
        using f by (simp add: current_interval_sec_def)
      with Returned e c b show ?thesis
        by (simp add: start_poll_def Let_def invoke_check_def)
    next
      case Crashed
      with e f show ?thesis by (simp add: start_poll_def Let_def)
    qed
  qed
  have m: "0 \<le> ival int_of_str (le_minutes a) 0 9999 0"
    "ival int_of_str (le_minutes a) 0 9999 0 \<le> 9999"
    "ival int_of_str (le_minutes a) 0 9999 0
       = (if le_minutes a = [] then 0
          else case int_of_str (le_minutes a) of None \<Rightarrow> 0 | Some n \<Rightarrow> max 0 (min 9999 n))"
    by (simp_all add: ival_def split: option.splits)
  have s: "0 \<le> ival int_of_str (le_seconds a) 0 59 0"
    "ival int_of_str (le_seconds a) 0 59 0 \<le> 59"
    "ival int_of_str (le_seconds a) 0 59 0
       = (if le_seconds a = [] then 0
          else case int_of_str (le_seconds a) of None \<Rightarrow> 0 | Some n \<Rightarrow> max 0 (min 59 n))"
    by (simp_all add: ival_def split: option.splits)
  have c: "current_interval_sec int_of_str a
             = max 1 (60 * ival int_of_str (le_minutes a) 0 9999 0
                      + ival int_of_str (le_seconds a) 0 59 0)"
    by (simp add: current_interval_sec_def Let_def mult.commute)
  show ?thesis
    unfolding Let_def
    using m(1) m(2) s(1) s(2) m(3) s(3) c b t
    by (intro conjI)
qed

theorem interval_clamped_witness:
  "current_interval_sec decimal example_app = 90
   \<and> current_interval_sec decimal (example_app\<lparr>le_minutes := ''x'', le_seconds := []\<rparr>) = 1
   \<and> current_interval_sec decimal (example_app\<lparr>le_minutes := ''10000'', le_seconds := ''75''\<rparr>)
       = 599999
   \<and> (case start_poll decimal 1000 (Raised (RequestException ''down'')) example_app of
        (Returned u, a', posts) \<Rightarrow> timer a' = Some 90000
      | (Crashed, a', posts) \<Rightarrow> False)"
proof -
  have d: "decimal ''1'' = Some 1" "decimal ''30'' = Some 30" "decimal ''x'' = None"
    "decimal ''10000'' = Some 10000" "decimal ''75'' = Some 75"
    by (simp_all add: decimal_def strip_def is_space_def)
  have c1: "current_interval_sec decimal example_app = 90"
    using interval_clamped [of decimal example_app 1000 "Raised (RequestException ''down'')"] d
    by (simp add: Let_def example_app_def ival_def)
  have c2: "current_interval_sec decimal (example_app\<lparr>le_minutes := ''x'', le_seconds := []\<rparr>) = 1"
    using interval_clamped [of decimal "example_app\<lparr>le_minutes := ''x'', le_seconds := []\<rparr>"
            1000 "Raised (RequestException ''down'')"] d
    by (simp add: Let_def example_app_def ival_def)
  have c3: "current_interval_sec decimal
              (example_app\<lparr>le_minutes := ''10000'', le_seconds := ''75''\<rparr>) = 599999"
    using interval_clamped [of decimal "example_app\<lparr>le_minutes := ''10000'', le_seconds := ''75''\<rparr>"
            1000 "Raised (RequestException ''down'')"] d
    by (simp add: Let_def example_app_def ival_def)
  have r: "fst (start_poll decimal 1000 (Raised (RequestException ''down'')) example_app)
             = Returned ()"
    by (rule start_poll_returns [where e = 5000]) (simp add: example_app_def dict_get_def)
  have c4: "(case start_poll decimal 1000 (Raised (RequestException ''down'')) example_app of
              (Returned u, a', posts) \<Rightarrow> timer a' = Some 90000
            | (Crashed, a', posts) \<Rightarrow> False)"
    using interval_clamped [of decimal example_app 1000 "Raised (RequestException ''down'')"] c1 r
    by (auto simp: Let_def split: prod.splits outcome.splits)
  from c1 c2 c3 c4 show ?thesis by simp
qed

lemma dict_get_update_other:
  "k \<noteq> k' \<Longrightarrow> dict_get (AList.update k v d) k' dflt = dict_get d k' dflt"
  by (simp add: dict_get_def update_conv')

text \<open>
  C10. When \<^verbatim>\<open>save_client_secret\<close> is false or missing in the dict given to
  \<^verbatim>\<open>save_config\<close>, the content written to the file is that dict with
  \<^verbatim>\<open>client_secret\<close> set to the empty string; replacing the secret in the dict by any
  other value gives the same file; and whether the write succeeds or not, every dict that
  was on the heap before the call, the argument among them, is as it was.
\<close>

theorem secret_not_persisted:
  assumes "cfg_addr < length h"
    and "\<not> truthy (dict_get (h ! cfg_addr) ''save_client_secret'' (JBool False))"
  shows "snd (save_config Written h cfg_addr old)
           = Some (AList.update ''client_secret'' (JStr []) (h ! cfg_addr))
         \<and> map_of (AList.update ''client_secret'' (JStr []) (h ! cfg_addr)) ''client_secret''
             = Some (JStr [])
         \<and> snd (save_config Written
                  (h[cfg_addr := AList.update ''client_secret'' secret (h ! cfg_addr)])
                  cfg_addr old)
             = snd (save_config Written h cfg_addr old)
         \<and> take (length h) (fst (save_config outcome h cfg_addr old)) = h
         \<and> fst (save_config outcome h cfg_addr old) ! cfg_addr = h ! cfg_addr"
  using assms
  by (simp add: save_config_def Let_def nth_append update_conv' dict_get_update_other)

theorem secret_not_persisted_witness:
  "\<not> truthy (dict_get cfg_flag_false ''save_client_secret'' (JBool False))
   \<and> \<not> truthy (dict_get cfg_flag_absent ''save_client_secret'' (JBool False))
   \<and> snd (save_config Written [cfg_flag_false] 0 None)
       = Some [(''client_id'', JStr ''cid''), (''client_secret'', JStr []),
               (''save_client_secret'', JBool False)]
   \<and> snd (save_config Written [cfg_flag_absent] 0 None)
       = Some [(''client_secret'', JStr []), (''client_id'', JStr ''cid'')]
   \<and> snd (save_config Written
            [AList.update ''client_secret'' (JStr ''other'') cfg_flag_false] 0 None)
       = snd (save_config Written [cfg_flag_false] 0 None)
   \<and> fst (save_config Written [cfg_flag_false] 0 None) ! 0 = cfg_flag_false"
proof -
  have h1: "\<not> truthy (dict_get cfg_flag_false ''save_client_secret'' (JBool False))"
    by (simp add: cfg_flag_false_def dict_get_def)
  have h2: "\<not> truthy (dict_get cfg_flag_absent ''save_client_secret'' (JBool False))"
    by (simp add: cfg_flag_absent_def dict_get_def)
  from secret_not_persisted [where h = "[cfg_flag_false]" and cfg_addr = 0 and old = None
         and secret = "JStr ''other''" and outcome = Written] h1
  have a: "snd (save_config Written [cfg_flag_false] 0 None)
             = Some (AList.update ''client_secret'' (JStr []) cfg_flag_false)"
    and b: "snd (save_config Written
                  [AList.update ''client_secret'' (JStr ''other'') cfg_flag_false] 0 None)
             = snd (save_config Written [cfg_flag_false] 0 None)"
    and c: "fst (save_config Written [cfg_flag_false] 0 None) ! 0 = cfg_flag_false"
    by simp_all
  from secret_not_persisted [where h = "[cfg_flag_absent]" and cfg_addr = 0 and old = None
         and secret = "JStr ''other''" and outcome = Written] h2
  have d: "snd (save_config Written [cfg_flag_absent] 0 None)
             = Some (AList.update ''client_secret'' (JStr []) cfg_flag_absent)"
    by simp
  have e: "AList.update ''client_secret'' (JStr []) cfg_flag_false
             = [(''client_id'', JStr ''cid''), (''client_secret'', JStr []),
                (''save_client_secret'', JBool False)]"
    "AList.update ''client_secret'' (JStr []) cfg_flag_absent
             = [(''client_secret'', JStr []), (''client_id'', JStr ''cid'')]"
    by (simp_all add: cfg_flag_false_def cfg_flag_absent_def)
  from h1 h2 a b c d e show ?thesis by simp
qed

text \<open>
  C9. \<^verbatim>\<open>_start_poll\<close> leaves \<^verbatim>\<open>live_sessions\<close> empty, whatever it held and however
  the call ends. So in the first poll result applied after it, every channel reported
  live fires the open-stream effect exactly once, also for a broadcast that was tracked
  before the restart.
\<close>

theorem restart_reopens:
  assumes "distinct (map fst result)"
    and "(login, i) \<in> set result"
    and "live i"
  shows "live_sessions (fst (snd (start_poll int_of_str now answer a))) = Map.empty
         \<and> count_list
              (snd (on_result now' result
                     (live_sessions (fst (snd (start_poll int_of_str now answer a))))))
              (OpenStream login) = 1"
proof -
  let ?a2 = "(persist_config int_of_str a)\<lparr>live_sessions := Map.empty\<rparr>"
  obtain r a3 posts where e: "ensure_token int_of_str now answer False False ?a2 = (r, a3, posts)"
    by (cases "ensure_token int_of_str now answer False False ?a2")
  from ensure_token_fields [OF e] have l3: "live_sessions a3 = Map.empty" by simp
  have cleared: "live_sessions (fst (snd (start_poll int_of_str now answer a))) = Map.empty"
    using e l3 by (cases r) (simp_all add: start_poll_def Let_def invoke_check_def)
  from on_result_at [OF assms(1,2), of now' Map.empty]
  obtain s ev where e0: "count_list ev (OpenStream login) = 0"
    and s: "s login = sweep now' Map.empty login"
    and c: "count_list (snd (on_result now' result Map.empty)) (OpenStream login)
              = count_list (snd (track_one now' (s, ev) (login, i))) (OpenStream login)"
    by blast
  from s have "s login = None" by (simp add: sweep_def)
  with assms(3) e0 c
  have "count_list (snd (on_result now' result Map.empty)) (OpenStream login) = 1"
    by simp
  with cleared show ?thesis by simp
qed

theorem restart_reopens_witness:
  "live alice_live
   \<and> session_key alice_live = session_id alice_session
   \<and> count_list
        (snd (on_result 1000 [(''alice'', alice_live)] [''alice'' \<mapsto> alice_session]))
        (OpenStream ''alice'') = 0
   \<and> count_list
        (snd (on_result 1000 [(''alice'', alice_live)]
               (live_sessions (fst (snd (start_poll decimal 950 answer_complete
                  (example_app\<lparr>live_sessions := [''alice'' \<mapsto> alice_session]\<rparr>)))))))
        (OpenStream ''alice'') = 1"
proof -
  have h1: "distinct (map fst [(''alice'', alice_live)])" by simp
  have h2: "(''alice'', alice_live) \<in> set [(''alice'', alice_live)]" by simp
  have h3: "live alice_live" by (simp add: alice_live_def)
  have k: "session_key alice_live = session_id alice_session"
    by (simp add: session_key_def alice_live_def alice_session_def)
  have before: "count_list
        (snd (on_result 1000 [(''alice'', alice_live)] [''alice'' \<mapsto> alice_session]))
        (OpenStream ''alice'') = 0"
    using h3 k
    by (simp add: on_result_def sweep_def expired_def alice_session_def)
  from restart_reopens [OF h1 h2 h3, of decimal 950 answer_complete
         "example_app\<lparr>live_sessions := [''alice'' \<mapsto> alice_session]\<rparr>" 1000,
         THEN conjunct2]
  have after: "count_list
        (snd (on_result 1000 [(''alice'', alice_live)]
               (live_sessions (fst (snd (start_poll decimal 950 answer_complete
                  (example_app\<lparr>live_sessions := [''alice'' \<mapsto> alice_session]\<rparr>)))))))
        (OpenStream ''alice'') = 1"
    by simp
  from h3 k before after show ?thesis by simp
qed

text \<open>
  A stored expiry that is an integer stays one, so the worker's callable returns: neither
  the conversion in \<^verbatim>\<open>_ensure_token\<close> nor the subtraction in line 587 raises.
\<close>

lemma store_token_expiry_int:
  "dict_get (cfg (snd (store_token P now tokv n cid sec a))) ''token_expires_at'' (JInt 0)
     = JInt (now + n)"
  by (cases tokv; simp add: store_token_def Let_def dict_get_def persist_config_cfg update_conv')

lemma exchange_expiry_int:
  assumes "dict_get (cfg a) ''token_expires_at'' (JInt 0) = JInt n"
  shows "\<exists>m. dict_get (cfg (snd (exchange P now answer cid sec a))) ''token_expires_at'' (JInt 0)
               = JInt m"
  using assms
  by (simp add: exchange_def store_token_expiry_int
           split: reply.splits exn.splits sum.splits jval.splits option.splits)

lemma ensure_token_expiry_int:
  assumes "dict_get (cfg a) ''token_expires_at'' (JInt 0) = JInt n"
  shows "\<exists>m. dict_get (cfg (fst (snd (ensure_token P now answer force fr a))))
               ''token_expires_at'' (JInt 0) = JInt m"
  using assms exchange_expiry_int [OF assms, of P now answer "strip (le_client_id a)"
          "strip (le_client_secret a)"]
  by (auto simp: ensure_token_def Let_def split: prod.splits)

lemma get_headers_safely_returns:
  assumes "dict_get (cfg a) ''token_expires_at'' (JInt 0) = JInt n"
  shows "fst (get_headers_safely P now_a answer_a now_b now_c answer_c fr a) \<noteq> Crashed"
proof -
  obtain r a1 posts where e: "ensure_token P now_a answer_a False fr a = (r, a1, posts)"
    by (cases "ensure_token P now_a answer_a False fr a")
  from assms have "int_of_jval P (dict_get (cfg a) ''token_expires_at'' (JInt 0)) = Some n"
    by simp
  from ensure_token_returns [OF this, of now_a answer_a False fr] e
  obtain got where r: "r = Returned got" by (cases r) simp_all
  from ensure_token_expiry_int [OF assms, of P now_a answer_a False fr] e
  obtain m where m: "dict_get (cfg a1) ''token_expires_at'' (JInt 0) = JInt m" by auto
  then have i: "int_of_jval P (dict_get (cfg a1) ''token_expires_at'' (JInt 0)) = Some m"
    by simp
  obtain r2 a2 posts2 where e2: "ensure_token P now_c answer_c False True a1 = (r2, a2, posts2)"
    by (cases "ensure_token P now_c answer_c False True a1")
  from ensure_token_returns [OF i, of now_c answer_c False True] e2
  obtain got2 where r2: "r2 = Returned got2" by (cases r2) simp_all
  from e r m e2 r2 show ?thesis
    by (simp add: get_headers_safely_def)
qed










section \<open>Properties of the status fetcher\<close>

lemma initial_out_acc:
  "fst ` set (foldl (\<lambda>out l. AList.update l v out) acc ls) = fst ` set acc \<union> set ls"
  "distinct (map fst acc) \<Longrightarrow> distinct (map fst (foldl (\<lambda>out l. AList.update l v out) acc ls))"
  "map_of (foldl (\<lambda>out l. AList.update l v out) acc ls) l
     = (if l \<in> set ls then Some v else map_of acc l)"
  by (induction ls arbitrary: acc) (auto simp: dom_update distinct_update update_conv')

lemma initial_out_facts:
  "fst ` set (initial_out ls) = set ls"
  "distinct (map fst (initial_out ls))"
  "l \<in> set ls \<Longrightarrow> map_of (initial_out ls) l = Some offline_info"
  by (simp_all add: initial_out_def initial_out_acc)

lemma apply_items_dom:
  "apply_items data out = (fl, out') \<Longrightarrow> fst ` set out \<subseteq> fst ` set out'"
  by (induction data out rule: apply_items.induct) (auto simp: dom_update)

lemma apply_items_distinct:
  "apply_items data out = (fl, out') \<Longrightarrow> distinct (map fst out) \<Longrightarrow> distinct (map fst out')"
  by (induction data out rule: apply_items.induct) (auto simp: distinct_update)

lemma apply_items_keep:
  "apply_items data out = (fl, out') \<Longrightarrow> map_of out l = Some offline_info
     \<Longrightarrow> map_of out' l = Some offline_info \<or> l \<in> set (names_in data)"
proof (induction data out rule: apply_items.induct)
  case (3 user_login t s sid rest out)
  show ?case
  proof (cases "l = lower user_login")
    case True
    then show ?thesis by simp
  next
    case False
    with 3 show ?thesis by (simp add: update_conv')
  qed
qed simp_all

lemma read_answer_dom:
  "read_answer r out = (fl, out', t) \<Longrightarrow> fst ` set out \<subseteq> fst ` set out'"
  by (auto simp: read_answer_def split: if_splits sum.splits prod.splits dest: apply_items_dom)

lemma read_answer_distinct:
  "read_answer r out = (fl, out', t) \<Longrightarrow> distinct (map fst out) \<Longrightarrow> distinct (map fst out')"
  by (auto simp: read_answer_def split: if_splits sum.splits prod.splits
           dest: apply_items_distinct)

lemma read_answer_keep:
  assumes "read_answer r out = (fl, out', t)" and "map_of out l = Some offline_info"
  shows "map_of out' l = Some offline_info
         \<or> l \<in> set (mentioned (HttpGet hdrs chunk (Response r)))"
proof (cases "ok r")
  case False
  with assms show ?thesis by (simp add: read_answer_def)
next
  case True
  show ?thesis
  proof (cases "json_body r")
    case (Inl e)
    with True assms show ?thesis by (simp add: read_answer_def)
  next
    case (Inr data)
    with True assms(1) have "apply_items data out = (fl, out')"
      by (simp add: read_answer_def split: prod.splits)
    from apply_items_keep [OF this assms(2)] True Inr show ?thesis
      by (simp add: answer_names_def)
  qed
qed

lemma read_answer_trace:
  "read_answer r out = (fl, out', t)
     \<Longrightarrow> \<forall>a \<in> set t. \<not> is_result a \<and> \<not> is_get a \<and> mentioned a = []"
  by (auto simp: read_answer_def split: if_splits sum.splits prod.splits)

text \<open>What one batch leaves true.\<close>

lemma do_chunk_inv:
  assumes "do_chunk gh hg hdrs chunk (out, w) = (fl, out', t, w')"
  shows "fst ` set out \<subseteq> fst ` set out'"
    and "distinct (map fst out) \<Longrightarrow> distinct (map fst out')"
    and "map_of out l = Some offline_info
           \<Longrightarrow> map_of out' l = Some offline_info \<or> l \<in> set (concat (map mentioned t))"
    and "\<forall>a \<in> set t. \<not> is_result a"
proof -
  let ?goal = "\<lambda>out' t.
     fst ` set out \<subseteq> fst ` set out'
     \<and> (distinct (map fst out) \<longrightarrow> distinct (map fst out'))
     \<and> (map_of out l = Some offline_info
          \<longrightarrow> map_of out' l = Some offline_info \<or> l \<in> set (concat (map mentioned t)))
     \<and> (\<forall>a \<in> set t. \<not> is_result a)"
  have via_read: "?goal out1 (pre @ t1)"
    if ra: "read_answer r out = (f1, out1, t1)"
      and pre: "\<forall>a \<in> set pre. \<not> is_result a"
      and men: "set (answer_names r) \<subseteq> set (concat (map mentioned pre))"
    for r f1 out1 t1 pre
  proof (intro conjI impI)
    show "fst ` set out \<subseteq> fst ` set out1" using ra by (rule read_answer_dom)
    show "distinct (map fst out1)" if "distinct (map fst out)"
      using ra that by (rule read_answer_distinct)
    show "\<forall>a \<in> set (pre @ t1). \<not> is_result a"
      using pre read_answer_trace [OF ra] by auto
    show "map_of out1 l = Some offline_info \<or> l \<in> set (concat (map mentioned (pre @ t1)))"
      if k: "map_of out l = Some offline_info"
      using read_answer_keep [OF ra k, of hdrs chunk] men by auto
  qed
  have same: "?goal out tr" if "\<forall>a \<in> set tr. \<not> is_result a" for tr
    using that by simp
  obtain answer w1 where g1: "hg hdrs chunk w = (answer, w1)" by (cases "hg hdrs chunk w")
  have "?goal out' t"
  proof (cases answer)
    case (Raised e)
    with assms g1 have eq: "out' = out" "t = [HttpGet hdrs chunk (Raised e)]"
      by (simp_all add: do_chunk_def)
    show ?thesis unfolding eq by (rule same) simp
  next
    case (Response r)
    show ?thesis
    proof (cases "status_code r = 401")
      case False
      obtain fl1 out1 t1 where ra: "read_answer r out = (fl1, out1, t1)"
        by (cases "read_answer r out")
      from assms g1 Response False ra
      have eq: "out' = out1" "t = [HttpGet hdrs chunk (Response r)] @ t1"
        by (simp_all add: do_chunk_def)
      show ?thesis unfolding eq by (rule via_read [OF ra]) simp_all
    next
      case True
      obtain res w2 where g2: "gh True w1 = (res, w2)" by (cases "gh True w1")
      show ?thesis
      proof (cases res)
        case (Inl e)
        with assms g1 g2 Response True
        have eq: "out' = out"
          "t = [HttpGet hdrs chunk (Response r), AuthErrorSignal, GetHeaders True]"
          by (simp_all add: do_chunk_def)
        show ?thesis unfolding eq by (rule same) simp
      next
        case (Inr trip)
        obtain ok2 headers2 err2 where trip: "trip = (ok2, headers2, err2)"
          by (cases trip)
        show ?thesis
        proof (cases ok2)
          case False
          with assms g1 g2 Response True Inr trip
          have eq: "out' = out"
            "t = [HttpGet hdrs chunk (Response r), AuthErrorSignal, GetHeaders True,
                  ErrorSignal (if err2 \<noteq> [] then ErrText err2 else ErrRefreshFailed)]"
            by (simp_all add: do_chunk_def)
          show ?thesis unfolding eq by (rule same) simp
        next
          case ok: True
          obtain answer2 w3 where g3: "hg headers2 chunk w2 = (answer2, w3)"
            by (cases "hg headers2 chunk w2")
          show ?thesis
          proof (cases answer2)
            case (Raised e)
            with assms g1 g2 g3 Response True Inr trip ok
            have eq: "out' = out"
              "t = [HttpGet hdrs chunk (Response r), AuthErrorSignal, GetHeaders True,
                    HttpGet headers2 chunk (Raised e)]"
              by (simp_all add: do_chunk_def)
            show ?thesis unfolding eq by (rule same) simp
          next
            case r2: (Response r2)
            obtain fl1 out1 t1 where ra: "read_answer r2 out = (fl1, out1, t1)"
              by (cases "read_answer r2 out")
            from assms g1 g2 g3 Response True Inr trip ok r2 ra
            have eq: "out' = out1"
              "t = [HttpGet hdrs chunk (Response r), AuthErrorSignal, GetHeaders True,
                    HttpGet headers2 chunk (Response r2)] @ t1"
              by (simp_all add: do_chunk_def)
            show ?thesis unfolding eq by (rule via_read [OF ra]) simp_all
          qed
        qed
      qed
    qed
  qed
  then show "fst ` set out \<subseteq> fst ` set out'"
    and "distinct (map fst out) \<Longrightarrow> distinct (map fst out')"
    and "map_of out l = Some offline_info
           \<Longrightarrow> map_of out' l = Some offline_info \<or> l \<in> set (concat (map mentioned t))"
    and "\<forall>a \<in> set t. \<not> is_result a"
    by blast+
qed

lemma run_chunks_inv:
  assumes "run_chunks gh hg hdrs cs (out, w) = (fl, out', t, w')"
  shows "fst ` set out \<subseteq> fst ` set out'
         \<and> (distinct (map fst out) \<longrightarrow> distinct (map fst out'))
         \<and> (map_of out l = Some offline_info
              \<longrightarrow> map_of out' l = Some offline_info \<or> l \<in> set (concat (map mentioned t)))
         \<and> (\<forall>a \<in> set t. \<not> is_result a)"
  using assms
proof (induction cs arbitrary: out w fl out' t w')
  case Nil
  then show ?case by simp
next
  case (Cons c cs)
  obtain f1 o1 t1 w1 where d: "do_chunk gh hg hdrs c (out, w) = (f1, o1, t1, w1)"
    by (cases "do_chunk gh hg hdrs c (out, w)")
  note i = do_chunk_inv [OF d]
  show ?case
  proof (cases f1)
    case Next
    obtain f2 o2 t2 w2 where r: "run_chunks gh hg hdrs cs (o1, w1) = (f2, o2, t2, w2)"
      by (cases "run_chunks gh hg hdrs cs (o1, w1)")
    from Cons.prems d Next r have eq: "out' = o2" "t = t1 @ t2" by simp_all
    from Cons.IH [OF r]
    have ih1: "fst ` set o1 \<subseteq> fst ` set o2"
      and ih2: "distinct (map fst o1) \<Longrightarrow> distinct (map fst o2)"
      and ih3: "map_of o1 l = Some offline_info
                  \<Longrightarrow> map_of o2 l = Some offline_info \<or> l \<in> set (concat (map mentioned t2))"
      and ih4: "\<forall>a \<in> set t2. \<not> is_result a"
      by blast+
    show ?thesis
      unfolding eq
    proof (intro conjI impI)
      show "fst ` set out \<subseteq> fst ` set o2" using i(1) ih1 by (rule subset_trans)
      show "distinct (map fst o2)" if "distinct (map fst out)" using that i(2) ih2 by blast
      show "\<forall>a \<in> set (t1 @ t2). \<not> is_result a" using i(4) ih4 by auto
      show "map_of o2 l = Some offline_info \<or> l \<in> set (concat (map mentioned (t1 @ t2)))"
        if "map_of out l = Some offline_info"
        using i(3) [OF that] ih3 by auto
    qed
  next
    case Break
    with Cons.prems d have eq: "out' = o1" "t = t1" by simp_all
    show ?thesis unfolding eq using i(1,2,4) i(3) [of l] by blast
  next
    case (Abort e)
    with Cons.prems d have eq: "out' = o1" "t = t1" by simp_all
    show ?thesis unfolding eq using i(1,2,4) i(3) [of l] by blast
  qed
qed

lemma strip_Nil [simp]: "strip [] = []"
  by (simp add: strip_def)

lemma lower_Nil_iff [simp]: "lower s = [] \<longleftrightarrow> s = []" "[] = lower s \<longleftrightarrow> s = []"
  by (auto simp: lower_def)

lemma normalize_set:
  "set (normalize logins) = (\<lambda>l. lower (strip l)) ` {l \<in> set logins. strip l \<noteq> []}"
  "[] \<notin> set (normalize logins)"
  by (auto simp: normalize_def)

lemma lower_char_idem: "lower_char (lower_char c) = lower_char c"
  by (simp add: lower_char_def)

lemma is_space_lower_char: "is_space (lower_char c) = is_space c"
  by (simp add: lower_char_def is_space_def)


lemma lower_idem: "lower (lower s) = lower s"
  by (simp add: lower_def lower_char_idem)

lemma strip_lower: "strip (lower s) = lower (strip s)"
proof -
  have c: "is_space \<circ> lower_char = is_space"
    by (rule ext) (simp add: is_space_lower_char)
  show ?thesis
    by (simp add: strip_def lower_def dropWhile_map rev_map c)
qed

lemma last_dropWhile_keeps:
  "dropWhile P xs \<noteq> [] \<Longrightarrow> last (dropWhile P xs) = last xs"
  by (induction xs) (auto split: if_splits)

lemma strip_idem: "strip (strip s) = strip s"
proof -
  let ?a = "dropWhile is_space s"
  let ?b = "dropWhile is_space (rev ?a)"
  have "dropWhile is_space (rev ?b) = rev ?b"
  proof (cases "?b = []")
    case True
    show ?thesis unfolding True by simp
  next
    case False
    then have "last ?b = last (rev ?a)" by (rule last_dropWhile_keeps)
    then have h: "hd (rev ?b) = hd ?a" by (simp add: hd_rev last_rev)
    from False have "?a \<noteq> []" by (auto dest: set_dropWhileD)
    then have "\<not> is_space (hd ?a)" by (rule hd_dropWhile)
    with h show ?thesis by (simp add: dropWhile_eq_self_iff)
  qed
  then show ?thesis by (simp add: strip_def)
qed

lemma normalize_fixed:
  "l \<in> set (normalize logins) \<Longrightarrow> strip l = l \<and> lower l = l"
  by (auto simp: normalize_def strip_lower strip_idem lower_idem)


lemma chunks100_short:
  "xs \<noteq> [] \<Longrightarrow> length xs \<le> 100 \<Longrightarrow> chunks100 xs = [xs]"
  by (subst chunks100.simps, subst chunks100.simps) simp

lemma normalize_example:
  "normalize ['' Alice '', [], ''BOB''] = [''alice'', ''bob'']"
  "normalize [''  '', []] = []"
  "normalize [''Alice''] = [''alice'']"
  by (simp_all add: normalize_def strip_def is_space_def lower_def lower_char_def)

lemma check_example:
  "check_channels fresh_headers picky_server ['' Alice '', [], ''BOB''] 0
     = (Returned (),
        [GetHeaders False,
         HttpGet [(''Authorization'', Bearer (JStr ''old''))] [''alice'', ''bob'']
           (Response answer_401),
         AuthErrorSignal, GetHeaders True,
         HttpGet [(''Authorization'', Bearer (JStr ''new''))] [''alice'', ''bob'']
           (Response answer_bob),
         ResultReady
           [(''alice'', offline_info),
            (''bob'', \<lparr>live = True, title = ''hello'', started_at = ''t1'', id_str = ''7''\<rparr>)]],
        2)"
  by (simp add: check_channels_def Let_def normalize_example chunks100_short initial_out_def
        do_chunk_def fresh_headers_def picky_server_def read_answer_def ok_def
        answer_401_def answer_bob_def lower_def lower_char_def)

text \<open>
  C7. \<^verbatim>\<open>check_channels\<close> works on the trimmed, lower-cased, non-empty logins of its
  input. Whenever the callable returns at its first call, whatever it and the network do
  afterwards, the method emits \<^verbatim>\<open>resultReady\<close> exactly once, as its last action,
  with a dict (every key once) that has an entry for every normalized login; the entry is
  the offline one unless an answer that passed \<^verbatim>\<open>r.ok\<close> names the login, so a login
  of a batch that ended in an error and that no answer names is offline. When no login is
  left after normalizing, the only action is the emission of the empty result: no
  credentials are asked for and no request is made. The one call that emits nothing is
  the one whose first credential lookup raises: that call stands before the \<^verbatim>\<open>try\<close>.
  The callable that the window gives to its worker returns whenever the stored token
  expiry is an integer, as every expiry is that the window stores.
\<close>

theorem fetch_result_complete:
  "(normalize logins = [] \<or> \<not> isl (fst (get_headers False w))
      \<longrightarrow> (\<exists>pre out w'.
             check_channels get_headers http_get logins w
               = (Returned (), pre @ [ResultReady out], w')
             \<and> (\<forall>a \<in> set pre. \<not> is_result a)
             \<and> distinct (map fst out)
             \<and> set (normalize logins) \<subseteq> fst ` set out
             \<and> (\<forall>l \<in> set (normalize logins).
                   map_of out l = Some offline_info
                   \<or> l \<in> set (concat (map mentioned pre)))))
   \<and> (normalize logins = []
        \<longrightarrow> check_channels get_headers http_get logins w = (Returned (), [ResultReady []], w))
   \<and> (normalize logins \<noteq> [] \<and> get_headers False w = (Inl e, wa)
        \<longrightarrow> check_channels get_headers http_get logins w = (Crashed, [GetHeaders False], wa))
   \<and> set (normalize logins) = (\<lambda>l. lower (strip l)) ` {l \<in> set logins. strip l \<noteq> []}
   \<and> (\<forall>l \<in> set (normalize logins). l \<noteq> [] \<and> strip l = l \<and> lower l = l)
   \<and> (dict_get (cfg a) ''token_expires_at'' (JInt 0) = JInt n
        \<longrightarrow> \<not> isl (fst (window_lookup int_of_str visits force_refresh (a, k))))"
proof -
  let ?ls = "normalize logins"
  let ?o = "initial_out ?ls"
  note io = initial_out_facts [where ls = ?ls]
  have win: "dict_get (cfg a) ''token_expires_at'' (JInt 0) = JInt n
        \<longrightarrow> \<not> isl (fst (window_lookup int_of_str visits force_refresh (a, k)))"
  proof
    assume h: "dict_get (cfg a) ''token_expires_at'' (JInt 0) = JInt n"
    let ?g = "get_headers_safely int_of_str (t_first (visits k)) (reply_first (visits k))
              (t_check (visits k)) (t_second (visits k)) (reply_second (visits k))
              force_refresh a"
    have ne: "fst ?g \<noteq> Crashed" using h by (rule get_headers_safely_returns)
    obtain r a' where g: "?g = (r, a')" by (cases ?g)
    with ne obtain triple where "r = Returned triple" by (cases r) simp_all
    with g show "\<not> isl (fst (window_lookup int_of_str visits force_refresh (a, k)))"
      by (simp add: window_lookup_def)
  qed
  have main: "\<exists>pre out w'.
     check_channels get_headers http_get logins w = (Returned (), pre @ [ResultReady out], w')
     \<and> (\<forall>a \<in> set pre. \<not> is_result a)
     \<and> distinct (map fst out)
     \<and> set ?ls \<subseteq> fst ` set out
     \<and> (\<forall>l \<in> set ?ls.
           map_of out l = Some offline_info \<or> l \<in> set (concat (map mentioned pre)))"
    if h: "?ls = [] \<or> \<not> isl (fst (get_headers False w))"
  proof (cases "?ls = []")
    case True
    then show ?thesis
      by (intro exI [of _ "[]"] exI [of _ w])
         (simp add: check_channels_def initial_out_def)
  next
    case False
    with h have "\<not> isl (fst (get_headers False w))" by simp
    then obtain ok1 hdrs err w1 where g: "get_headers False w = (Inr (ok1, hdrs, err), w1)"
      by (cases "get_headers False w"; cases "fst (get_headers False w)") auto
    show ?thesis
    proof (cases ok1)
      case no: False
      show ?thesis
        by (intro exI [of _ "[GetHeaders False,
               ErrorSignal (if err \<noteq> [] then ErrText err else ErrNotReady)]"] exI [of _ ?o]
               exI [of _ w1])
           (use False g no io in \<open>simp add: check_channels_def\<close>)
    next
      case yes: True
      obtain fl out' t w2
        where r: "run_chunks get_headers http_get hdrs (chunks100 ?ls) (?o, w1) = (fl, out', t, w2)"
        by (cases "run_chunks get_headers http_get hdrs (chunks100 ?ls) (?o, w1)")
      have inv: "fst ` set ?o \<subseteq> fst ` set out'" "distinct (map fst out')"
        "\<forall>a \<in> set t. \<not> is_result a"
        and keep: "\<And>l. l \<in> set ?ls
               \<Longrightarrow> map_of out' l = Some offline_info \<or> l \<in> set (concat (map mentioned t))"
        using run_chunks_inv [OF r] io by blast+
      let ?tail = "(case fl of Abort (RequestException e) \<Rightarrow> [ErrorSignal (ErrNetwork e)]
                    | Abort (OtherException e) \<Rightarrow> [ErrorSignal (ErrUnknown e)]
                    | _ \<Rightarrow> [])"
      have tr: "check_channels get_headers http_get logins w
                  = (Returned (), (GetHeaders False # t @ ?tail) @ [ResultReady out'], w2)"
        using False g yes r
        by (simp add: check_channels_def split: flow.splits exn.splits)
      have tl: "(\<forall>a \<in> set ?tail. \<not> is_result a) \<and> concat (map mentioned ?tail) = []"
      proof (cases fl)
        case (Abort e)
        then show ?thesis by (cases e) simp_all
      qed simp_all
      have nores: "\<forall>a \<in> set (GetHeaders False # t @ ?tail). \<not> is_result a"
        using inv(3) tl by auto
      have men: "concat (map mentioned (GetHeaders False # t @ ?tail)) = concat (map mentioned t)"
        using tl by simp
      show ?thesis
        by (intro exI [of _ "GetHeaders False # t @ ?tail"] exI [of _ out'] exI [of _ w2])
           (use tr nores men inv io keep in \<open>auto simp del: map_append concat_append\<close>)
    qed
  qed
  have empty: "normalize logins = []
          \<longrightarrow> check_channels get_headers http_get logins w = (Returned (), [ResultReady []], w)"
    by (simp add: check_channels_def initial_out_def)
  have crash: "normalize logins \<noteq> [] \<and> get_headers False w = (Inl e, wa)
        \<longrightarrow> check_channels get_headers http_get logins w = (Crashed, [GetHeaders False], wa)"
    by (simp add: check_channels_def)
  have fx: "\<forall>l \<in> set (normalize logins). l \<noteq> [] \<and> strip l = l \<and> lower l = l"
  proof
    fix l
    assume m: "l \<in> set (normalize logins)"
    with normalize_set(2) [of logins] have "l \<noteq> []" by blast
    with normalize_fixed [OF m] show "l \<noteq> [] \<and> strip l = l \<and> lower l = l" by simp
  qed
  show ?thesis
  proof (intro conjI)
    show "normalize logins = [] \<or> \<not> isl (fst (get_headers False w))
      \<longrightarrow> (\<exists>pre out w'.
             check_channels get_headers http_get logins w
               = (Returned (), pre @ [ResultReady out], w')
             \<and> (\<forall>a \<in> set pre. \<not> is_result a)
             \<and> distinct (map fst out)
             \<and> set (normalize logins) \<subseteq> fst ` set out
             \<and> (\<forall>l \<in> set (normalize logins).
                   map_of out l = Some offline_info
                   \<or> l \<in> set (concat (map mentioned pre))))"
      using main by (rule impI)
    show "normalize logins = []
          \<longrightarrow> check_channels get_headers http_get logins w = (Returned (), [ResultReady []], w)"
      by (fact empty)
    show "normalize logins \<noteq> [] \<and> get_headers False w = (Inl e, wa)
        \<longrightarrow> check_channels get_headers http_get logins w = (Crashed, [GetHeaders False], wa)"
      by (fact crash)
    show "set (normalize logins) = (\<lambda>l. lower (strip l)) ` {l \<in> set logins. strip l \<noteq> []}"
      by (fact normalize_set(1))
    show "\<forall>l \<in> set (normalize logins). l \<noteq> [] \<and> strip l = l \<and> lower l = l"
      by (fact fx)
    show "dict_get (cfg a) ''token_expires_at'' (JInt 0) = JInt n
        \<longrightarrow> \<not> isl (fst (window_lookup int_of_str visits force_refresh (a, k)))"
      by (fact win)
  qed
qed

theorem fetch_result_complete_witness:
  "normalize ['' Alice '', [], ''BOB''] = [''alice'', ''bob'']
   \<and> \<not> isl (fst (fresh_headers False 0))
   \<and> last (fst (snd (check_channels fresh_headers picky_server ['' Alice '', [], ''BOB''] 0)))
       = ResultReady
           [(''alice'', offline_info),
            (''bob'', \<lparr>live = True, title = ''hello'', started_at = ''t1'', id_str = ''7''\<rparr>)]
   \<and> set (normalize ['' Alice '', [], ''BOB''])
       \<subseteq> fst ` set [(''alice'', offline_info),
                      (''bob'', \<lparr>live = True, title = ''hello'', started_at = ''t1'',
                                 id_str = ''7''\<rparr>)]
   \<and> normalize [''  '', []] = []
   \<and> check_channels fresh_headers picky_server [''  '', []] 0
       = (Returned (), [ResultReady []], 0)
   \<and> check_channels failing_lookup picky_server [''Alice''] 0
       = (Crashed, [GetHeaders False], 0)
   \<and> dict_get (cfg example_app) ''token_expires_at'' (JInt 0) = JInt 5000
   \<and> \<not> isl (fst (window_lookup decimal (\<lambda>k. offline_visit) False (example_app, 0)))"
proof -
  let ?L = "['' Alice '', [], ''BOB'']"
  let ?O = "[(''alice'', offline_info),
             (''bob'', \<lparr>live = True, title = ''hello'', started_at = ''t1'', id_str = ''7''\<rparr>)]"
  let ?C = "check_channels fresh_headers picky_server ?L (0::nat)"
  have hyp: "\<not> isl (fst (fresh_headers False (0::nat)))"
    by (simp add: fresh_headers_def)
  then have hyp': "normalize ?L = [] \<or> \<not> isl (fst (fresh_headers False (0::nat)))"
    by (rule disjI2)
  note inst = fetch_result_complete [where logins = ?L and get_headers = fresh_headers
      and w = "0::nat" and http_get = picky_server, THEN conjunct1]
  from inst hyp' have "\<exists>pre out w'.
             ?C = (Returned (), pre @ [ResultReady out], w')
             \<and> (\<forall>a \<in> set pre. \<not> is_result a)
             \<and> distinct (map fst out)
             \<and> set (normalize ?L) \<subseteq> fst ` set out
             \<and> (\<forall>l \<in> set (normalize ?L).
                   map_of out l = Some offline_info
                   \<or> l \<in> set (concat (map mentioned pre)))"
    by (rule mp)
  then obtain pre out w'
    where p: "?C = (Returned (), pre @ [ResultReady out], w')"
      and sub: "set (normalize ?L) \<subseteq> fst ` set out"
    by (elim exE conjE)
  from p have "fst (snd ?C) = pre @ [ResultReady out]" by simp
  then have "last (fst (snd ?C)) = last (pre @ [ResultReady out])" by (rule arg_cong)
  then have l1: "last (fst (snd ?C)) = ResultReady out" by (simp only: last_snoc)
  have l: "last (fst (snd ?C)) = ResultReady ?O"
    by (simp add: check_example)
  from l1 l have "ResultReady out = ResultReady ?O" by (rule trans [OF sym])
  then have "out = ?O" by (simp only: action.inject)
  with sub have s: "set (normalize ?L) \<subseteq> fst ` set ?O"
    by (rule subst [where P = "\<lambda>x. set (normalize ?L) \<subseteq> fst ` set x", rotated])
  note inst2 = fetch_result_complete [where logins = "[''  '', []]"
      and get_headers = fresh_headers and w = "0::nat" and http_get = picky_server,
      THEN conjunct2, THEN conjunct1]
  from inst2 normalize_example(2)
  have e: "check_channels fresh_headers picky_server [''  '', []] (0::nat)
             = (Returned (), [ResultReady []], 0)"
    by (rule mp)
  have ne: "normalize [''Alice''] \<noteq> []
            \<and> failing_lookup False (0::nat) = (Inl (OtherException ''TypeError''), 0)"
    by (simp add: normalize_example(3) failing_lookup_def)
  note inst3 = fetch_result_complete [where logins = "[''Alice'']"
      and get_headers = failing_lookup and w = "0::nat" and http_get = picky_server
      and e = "OtherException ''TypeError''" and wa = "0::nat",
      THEN conjunct2, THEN conjunct2, THEN conjunct1]
  from inst3 ne
  have c: "check_channels failing_lookup picky_server [''Alice''] (0::nat)
             = (Crashed, [GetHeaders False], 0)"
    by (rule mp)
  have x: "dict_get (cfg example_app) ''token_expires_at'' (JInt 0) = JInt 5000"
    by (simp add: example_app_def dict_get_def)
  note inst4 = fetch_result_complete [where a = example_app and n = 5000
      and int_of_str = decimal and visits = "\<lambda>k. offline_visit" and force_refresh = False
      and k = "0::nat", THEN conjunct2, THEN conjunct2, THEN conjunct2, THEN conjunct2,
      THEN conjunct2]
  from inst4 x
  have y: "\<not> isl (fst (window_lookup decimal (\<lambda>k. offline_visit) False (example_app, 0)))"
    by (rule mp)
  from normalize_example(1) hyp l s normalize_example(2) e c x y show ?thesis
    by (intro conjI)
qed

text \<open>
  C4, as the code has it. When the answer to a batch has status 401, the worker emits
  \<^verbatim>\<open>authErrorSignal\<close> and asks the callable for headers with a forced refresh. If
  that succeeds, it repeats the request for the same batch once, with the new headers,
  and makes no further request for the batch; an answer to the repetition that fails
  \<^verbatim>\<open>r.ok\<close> (a status in 400..599) is reported with \<^verbatim>\<open>errorSignal\<close> and the loop
  goes on with the remaining batches. If the refresh fails, an error is reported, the
  batch is not repeated and the loop ends: the remaining batches are not requested; the
  same holds, without the report inside the loop, when the callable raises. An answer
  with another status that fails \<^verbatim>\<open>r.ok\<close> is reported and the loop goes on.
\<close>

theorem unauthorized_batch:
  "(http_get hdrs chunk w = (Response r, wa) \<and> status_code r = 401
      \<and> get_headers True wa = (Inr (True, hdrs_new, err), wb)
      \<and> http_get hdrs_new chunk wb = (answer_b, wc)
     \<longrightarrow> (\<exists>fl out' t.
           do_chunk get_headers http_get hdrs chunk (out, w)
             = (fl, out',
                [HttpGet hdrs chunk (Response r), AuthErrorSignal, GetHeaders True,
                 HttpGet hdrs_new chunk answer_b] @ t,
                wc)
           \<and> (\<forall>a \<in> set t. \<not> is_get a)))
   \<and> (http_get hdrs chunk w = (Response r, wa) \<and> status_code r = 401
      \<and> get_headers True wa = (Inr (True, hdrs_new, err), wb)
      \<and> http_get hdrs_new chunk wb = (Response rb, wc) \<and> \<not> ok rb
     \<longrightarrow> run_chunks get_headers http_get hdrs (chunk # chunks) (out, w)
           = (case run_chunks get_headers http_get hdrs chunks (out, wc) of
                (fl, out', t, w') \<Rightarrow>
                  (fl, out',
                   [HttpGet hdrs chunk (Response r), AuthErrorSignal, GetHeaders True,
                    HttpGet hdrs_new chunk (Response rb),
                    ErrorSignal (ErrQueryFailed (status_code rb) (take 200 (body_text rb)))]
                   @ t,
                   w')))
   \<and> (http_get hdrs chunk w = (Response r, wa) \<and> status_code r = 401
      \<and> get_headers True wa = (Inr (False, hdrs_new, err), wb)
     \<longrightarrow> run_chunks get_headers http_get hdrs (chunk # chunks) (out, w)
           = (Break, out,
              [HttpGet hdrs chunk (Response r), AuthErrorSignal, GetHeaders True,
               ErrorSignal (if err \<noteq> [] then ErrText err else ErrRefreshFailed)],
              wb))
   \<and> (http_get hdrs chunk w = (Response r, wa) \<and> status_code r = 401
      \<and> get_headers True wa = (Inl e, wb)
     \<longrightarrow> run_chunks get_headers http_get hdrs (chunk # chunks) (out, w)
           = (Abort e, out,
              [HttpGet hdrs chunk (Response r), AuthErrorSignal, GetHeaders True],
              wb))
   \<and> (http_get hdrs chunk w = (Response r, wa) \<and> status_code r \<noteq> 401 \<and> \<not> ok r
     \<longrightarrow> run_chunks get_headers http_get hdrs (chunk # chunks) (out, w)
           = (case run_chunks get_headers http_get hdrs chunks (out, wa) of
                (fl, out', t, w') \<Rightarrow>
                  (fl, out',
                   [HttpGet hdrs chunk (Response r),
                    ErrorSignal (ErrQueryFailed (status_code r) (take 200 (body_text r)))]
                   @ t,
                   w')))"
proof (intro conjI impI)
  assume a: "http_get hdrs chunk w = (Response r, wa) \<and> status_code r = 401
      \<and> get_headers True wa = (Inr (True, hdrs_new, err), wb)
      \<and> http_get hdrs_new chunk wb = (answer_b, wc)"
  show "\<exists>fl out' t.
           do_chunk get_headers http_get hdrs chunk (out, w)
             = (fl, out',
                [HttpGet hdrs chunk (Response r), AuthErrorSignal, GetHeaders True,
                 HttpGet hdrs_new chunk answer_b] @ t,
                wc)
           \<and> (\<forall>a \<in> set t. \<not> is_get a)"
  proof (cases answer_b)
    case (Raised e)
    with a show ?thesis by (simp add: do_chunk_def)
  next
    case (Response rb)
    obtain fl out' t where ra: "read_answer rb out = (fl, out', t)"
      by (cases "read_answer rb out")
    from read_answer_trace [OF ra] have "\<forall>a \<in> set t. \<not> is_get a" by blast
    with a Response ra show ?thesis by (simp add: do_chunk_def)
  qed
next
  assume "http_get hdrs chunk w = (Response r, wa) \<and> status_code r = 401
      \<and> get_headers True wa = (Inr (True, hdrs_new, err), wb)
      \<and> http_get hdrs_new chunk wb = (Response rb, wc) \<and> \<not> ok rb"
  then show "run_chunks get_headers http_get hdrs (chunk # chunks) (out, w)
           = (case run_chunks get_headers http_get hdrs chunks (out, wc) of
                (fl, out', t, w') \<Rightarrow>
                  (fl, out',
                   [HttpGet hdrs chunk (Response r), AuthErrorSignal, GetHeaders True,
                    HttpGet hdrs_new chunk (Response rb),
                    ErrorSignal (ErrQueryFailed (status_code rb) (take 200 (body_text rb)))]
                   @ t,
                   w'))"
    by (simp add: do_chunk_def read_answer_def split: prod.splits)
next
  assume "http_get hdrs chunk w = (Response r, wa) \<and> status_code r = 401
      \<and> get_headers True wa = (Inr (False, hdrs_new, err), wb)"
  then show "run_chunks get_headers http_get hdrs (chunk # chunks) (out, w)
           = (Break, out,
              [HttpGet hdrs chunk (Response r), AuthErrorSignal, GetHeaders True,
               ErrorSignal (if err \<noteq> [] then ErrText err else ErrRefreshFailed)],
              wb)"
    by (simp add: do_chunk_def)
next
  assume "http_get hdrs chunk w = (Response r, wa) \<and> status_code r = 401
      \<and> get_headers True wa = (Inl e, wb)"
  then show "run_chunks get_headers http_get hdrs (chunk # chunks) (out, w)
           = (Abort e, out,
              [HttpGet hdrs chunk (Response r), AuthErrorSignal, GetHeaders True],
              wb)"
    by (simp add: do_chunk_def)
next
  assume "http_get hdrs chunk w = (Response r, wa) \<and> status_code r \<noteq> 401 \<and> \<not> ok r"
  then show "run_chunks get_headers http_get hdrs (chunk # chunks) (out, w)
           = (case run_chunks get_headers http_get hdrs chunks (out, wa) of
                (fl, out', t, w') \<Rightarrow>
                  (fl, out',
                   [HttpGet hdrs chunk (Response r),
                    ErrorSignal (ErrQueryFailed (status_code r) (take 200 (body_text r)))]
                   @ t,
                   w'))"
    by (simp add: do_chunk_def read_answer_def split: prod.splits)
qed

theorem unauthorized_batch_witness:
  "always_401 [(''Authorization'', Bearer (JStr ''old''))] [''alice''] 0
     = (Response answer_401, 1)
   \<and> status_code answer_401 = 401
   \<and> stale_headers True 1 = (Inr (False, [], []), 1)
   \<and> run_chunks stale_headers always_401 [(''Authorization'', Bearer (JStr ''old''))]
        [[''alice''], [''bob'']] ([(''alice'', offline_info), (''bob'', offline_info)], 0)
       = (Break, [(''alice'', offline_info), (''bob'', offline_info)],
          [HttpGet [(''Authorization'', Bearer (JStr ''old''))] [''alice'']
             (Response answer_401),
           AuthErrorSignal, GetHeaders True, ErrorSignal ErrRefreshFailed],
          1)
   \<and> picky_server [(''Authorization'', Bearer (JStr ''old''))] [''alice''] 0
       = (Response answer_401, 1)
   \<and> fresh_headers True 1 = (Inr (True, [(''Authorization'', Bearer (JStr ''new''))], []), 1)
   \<and> picky_server [(''Authorization'', Bearer (JStr ''new''))] [''alice''] 1
       = (Response answer_500, 2)
   \<and> \<not> ok answer_500
   \<and> run_chunks fresh_headers picky_server [(''Authorization'', Bearer (JStr ''old''))]
        [[''alice''], [''bob'']] ([(''alice'', offline_info), (''bob'', offline_info)], 0)
       = (case run_chunks fresh_headers picky_server
                 [(''Authorization'', Bearer (JStr ''old''))]
                 [[''bob'']] ([(''alice'', offline_info), (''bob'', offline_info)], 2) of
            (fl, out', t, w') \<Rightarrow>
              (fl, out',
               [HttpGet [(''Authorization'', Bearer (JStr ''old''))] [''alice'']
                  (Response answer_401),
                AuthErrorSignal, GetHeaders True,
                HttpGet [(''Authorization'', Bearer (JStr ''new''))] [''alice'']
                  (Response answer_500),
                ErrorSignal (ErrQueryFailed 500 ''oops'')] @ t,
               w'))"
proof -
  let ?old = "[(''Authorization'', Bearer (JStr ''old''))]"
  let ?new = "[(''Authorization'', Bearer (JStr ''new''))]"
  let ?o = "[(''alice'', offline_info), (''bob'', offline_info)]"
  have a1: "always_401 ?old [''alice''] 0 = (Response answer_401, 1)"
    by (simp add: always_401_def)
  have a2: "status_code answer_401 = 401" by (simp add: answer_401_def)
  have a3: "stale_headers True 1 = (Inr (False, [], []), 1)" by (simp add: stale_headers_def)
  have b1: "picky_server ?old [''alice''] 0 = (Response answer_401, 1)"
    by (simp add: picky_server_def)
  have b2: "fresh_headers True 1 = (Inr (True, ?new, []), 1)" by (simp add: fresh_headers_def)
  have b3: "picky_server ?new [''alice''] 1 = (Response answer_500, 2)"
    by (simp add: picky_server_def)
  have b4: "\<not> ok answer_500" by (simp add: ok_def answer_500_def)
  have b5: "status_code answer_500 = 500" "take 200 (body_text answer_500) = ''oops''"
    by (simp_all add: answer_500_def)
  from unauthorized_batch [where get_headers = stale_headers and http_get = always_401
         and hdrs = ?old and chunk = "[''alice'']" and w = "0::nat" and r = answer_401
         and wa = "1::nat" and hdrs_new = "[]" and err = "[]" and wb = "1::nat" and chunks = "[[''bob'']]"
         and out = ?o, THEN conjunct2, THEN conjunct2, THEN conjunct1] a1 a2 a3
  have stop: "run_chunks stale_headers always_401 ?old [[''alice''], [''bob'']] (?o, 0)
       = (Break, ?o,
          [HttpGet ?old [''alice''] (Response answer_401),
           AuthErrorSignal, GetHeaders True, ErrorSignal ErrRefreshFailed],
          1)"
    by simp
  from unauthorized_batch [where get_headers = fresh_headers and http_get = picky_server
         and hdrs = ?old and chunk = "[''alice'']" and w = "0::nat" and r = answer_401
         and wa = "1::nat" and hdrs_new = ?new and err = "[]" and wb = "1::nat"
         and rb = answer_500 and wc = "2::nat"
         and chunks = "[[''bob'']]" and out = ?o, THEN conjunct2, THEN conjunct1] b1 a2 b2 b3 b4
  have go: "run_chunks fresh_headers picky_server ?old [[''alice''], [''bob'']] (?o, 0)
       = (case run_chunks fresh_headers picky_server ?old [[''bob'']] (?o, 2) of
            (fl, out', t, w') \<Rightarrow>
              (fl, out',
               [HttpGet ?old [''alice''] (Response answer_401),
                AuthErrorSignal, GetHeaders True,
                HttpGet ?new [''alice''] (Response answer_500),
                ErrorSignal (ErrQueryFailed 500 ''oops'')] @ t,
               w'))"
    by (simp only: b5 simp_thms)
  from a1 a2 a3 stop b1 b2 b3 b4 go show ?thesis by (intro conjI)
qed

lemma strip_letters: "strip (replicate k (CHR ''a'')) = replicate k (CHR ''a'')"
  by (simp add: strip_def dropWhile_replicate is_space_def)

lemma hundred_and_one_facts:
  "normalize hundred_and_one \<noteq> []"
  "length (normalize hundred_and_one) = 101"
proof -
  have "\<forall>l \<in> set hundred_and_one. l \<noteq> [] \<and> strip l \<noteq> []"
    by (auto simp: hundred_and_one_def strip_letters)
  then have "filter (\<lambda>l. l \<noteq> [] \<and> strip l \<noteq> []) hundred_and_one = hundred_and_one"
    by (rule filter_True)
  then show l: "length (normalize hundred_and_one) = 101"
    by (simp add: normalize_def hundred_and_one_def)
  then show "normalize hundred_and_one \<noteq> []" by auto
qed

lemma refresh_failure_trace:
  assumes "normalize logins \<noteq> []"
  shows "check_channels stale_headers always_401 logins 0
     = (Returned (),
        [GetHeaders False,
         HttpGet [(''Authorization'', Bearer (JStr ''old''))] (take 100 (normalize logins))
           (Response answer_401),
         AuthErrorSignal, GetHeaders True, ErrorSignal ErrRefreshFailed,
         ResultReady (initial_out (normalize logins))],
        1)"
proof -
  have c: "chunks100 (normalize logins)
             = take 100 (normalize logins) # chunks100 (drop 100 (normalize logins))"
    using assms by (subst chunks100.simps) simp
  have s: "status_code answer_401 = 401" by (simp add: answer_401_def)
  show ?thesis
    using assms
    by (simp add: check_channels_def Let_def c do_chunk_def stale_headers_def always_401_def s)
qed

text \<open>
  The claim as the specification words it fails when the forced refresh fails: the batch
  is requested once and never again, and of 101 logins only the first hundred are ever
  requested.
\<close>

theorem refresh_failure_stops:
  "check_channels stale_headers always_401 [''Alice''] 0
     = (Returned (),
        [GetHeaders False,
         HttpGet [(''Authorization'', Bearer (JStr ''old''))] [''alice''] (Response answer_401),
         AuthErrorSignal, GetHeaders True, ErrorSignal ErrRefreshFailed,
         ResultReady [(''alice'', offline_info)]],
        1)
   \<and> length (normalize hundred_and_one) = 101
   \<and> check_channels stale_headers always_401 hundred_and_one 0
     = (Returned (),
        [GetHeaders False,
         HttpGet [(''Authorization'', Bearer (JStr ''old''))]
           (take 100 (normalize hundred_and_one)) (Response answer_401),
         AuthErrorSignal, GetHeaders True, ErrorSignal ErrRefreshFailed,
         ResultReady (initial_out (normalize hundred_and_one))],
        1)"
proof -
  have one: "check_channels stale_headers always_401 [''Alice''] 0
     = (Returned (),
        [GetHeaders False,
         HttpGet [(''Authorization'', Bearer (JStr ''old''))] [''alice''] (Response answer_401),
         AuthErrorSignal, GetHeaders True, ErrorSignal ErrRefreshFailed,
         ResultReady [(''alice'', offline_info)]],
        1)"
    by (simp add: check_channels_def Let_def normalize_example chunks100_short initial_out_def
          do_chunk_def stale_headers_def always_401_def answer_401_def)
  from one hundred_and_one_facts(2) refresh_failure_trace [OF hundred_and_one_facts(1)]
  show ?thesis by (intro conjI)
qed

end
